theory Spec2Isabelle
  imports Main "HOL-Library.Multiset"
begin

section \<open>Data model\<close>

text \<open>
  JavaScript values as far as \<^verbatim>\<open>ReturningResultsEntityUpdator\<close> looks at them. An object is
  a list of properties in insertion order; a property is set with \<open>assign\<close>, which replaces
  the value of a key that is there and appends a new key otherwise.
\<close>

datatype val =
    Undefined
  | Null
  | Bool bool
  | Num int
  | Str string
  | Arr "val list"
  | Obj "(string \<times> val) list"

type_synonym ObjectLiteral = "(string \<times> val) list"

fun assign :: "string \<Rightarrow> val \<Rightarrow> ObjectLiteral \<Rightarrow> ObjectLiteral" where
  "assign k v [] = [(k, v)]"
| "assign k v (p # ps) = (if fst p = k then (k, v) # ps else p # assign k v ps)"

definition keys :: "ObjectLiteral \<Rightarrow> string set" where
  "keys obj = fst ` set obj"

text \<open>
  \<^verbatim>\<open>ColumnMetadata\<close>: the fields and the one method the updator reads.
  \<^verbatim>\<open>asExpression\<close> is \<open>None\<close> where the source has \<^verbatim>\<open>undefined\<close>.
\<close>

record ColumnMetadata =
  databaseName :: string
  propertyPath :: string
  asExpression :: "string option"
  isUpdateDate :: bool
  isVersion :: bool
  isDeleteDate :: bool
  isGenerated :: bool
  getEntityValue :: "ObjectLiteral \<Rightarrow> val"

text \<open>
  \<^verbatim>\<open>EntityMetadata\<close> (\<^verbatim>\<open>expressionMap.mainAlias!.metadata\<close>). \<^verbatim>\<open>getEntityIdMap\<close> and
  \<^verbatim>\<open>getInsertionReturningColumns\<close> are methods of a class defined outside these
  sources, so they are fields here: any function may stand for them.
\<close>

record EntityMetadata =
  targetName :: string
  columns :: "ColumnMetadata list"
  primaryColumns :: "ColumnMetadata list"
  getEntityIdMap :: "ObjectLiteral \<Rightarrow> ObjectLiteral option"
  getInsertionReturningColumns :: "ColumnMetadata list"

text \<open>
  The upsert configuration \<^verbatim>\<open>expressionMap.onUpdate\<close>; its \<^verbatim>\<open>conflict\<close> is a string, an
  array of strings, or absent.
\<close>

datatype conflict_target = ConflictString string | ConflictArray "string list"

record OnUpdate =
  conflict :: "conflict_target option"

record QueryExpressionMap =
  metadata :: EntityMetadata
  extraReturningColumns :: "ColumnMetadata list"
  locallyGenerated :: "nat \<rightharpoonup> ObjectLiteral"
  onUpdate :: "OnUpdate option"

text \<open>
  A read built with \<^verbatim>\<open>manager.createQueryBuilder()\<close>: the \<^verbatim>\<open>select\<close> and \<^verbatim>\<open>addSelect\<close>
  lists, the alias of \<^verbatim>\<open>from\<close>, the argument of \<^verbatim>\<open>where\<close> (one object, or an array of
  objects), whether \<^verbatim>\<open>withDeleted()\<close> was called and the options set.
\<close>

datatype where_arg = WhereObject ObjectLiteral | WhereArray "ObjectLiteral list"

record SelectQuery =
  selects :: "string list"
  addSelects :: "string list"
  fromAlias :: string
  whereArg :: where_arg
  withDeleted :: bool
  options :: "string list"

text \<open>
  The driver and the query runner. What the database answers to a read is a parameter:
  \<open>getOne\<close> gives a row or nothing, \<open>getMany\<close> gives rows in the order the database
  chooses. Every read answers: a read that the query service rejects is outside this
  model.
\<close>

record Driver =
  isReturningSqlSupported :: "string \<Rightarrow> bool"
  optionsType :: string
  createGeneratedMap :: "EntityMetadata \<Rightarrow> val \<Rightarrow> nat option \<Rightarrow> nat option \<Rightarrow> ObjectLiteral option"

record QueryRunner =
  driver :: Driver
  getOne :: "SelectQuery \<Rightarrow> ObjectLiteral option"
  getMany :: "SelectQuery \<Rightarrow> ObjectLiteral list"

record ReturningResultsEntityUpdator =
  queryRunner :: QueryRunner
  expressionMap :: QueryExpressionMap

section \<open>Returning-column selectors\<close>

definition getUpdationReturningColumns :: "ReturningResultsEntityUpdator \<Rightarrow> ColumnMetadata list" where
  "getUpdationReturningColumns this =
     filter (\<lambda>column. asExpression column \<noteq> None \<or> isUpdateDate column \<or> isVersion column)
       (columns (metadata (expressionMap this)))"

definition getSoftDeletionReturningColumns :: "ReturningResultsEntityUpdator \<Rightarrow> ColumnMetadata list" where
  "getSoftDeletionReturningColumns this =
     filter (\<lambda>column. asExpression column \<noteq> None \<or> isUpdateDate column \<or> isVersion column
                      \<or> isDeleteDate column)
       (columns (metadata (expressionMap this)))"

section \<open>Conflict-column resolver\<close>

text \<open>
  \<^verbatim>\<open>conflicts.forEach\<close> with its \<^verbatim>\<open>push\<close>: the columns found so far are the accumulator.
  \<^verbatim>\<open>metadata.columns.find\<close> is \<open>find\<close>: the first column of that database name.
\<close>

fun pushConflictColumns ::
  "ColumnMetadata list \<Rightarrow> string list \<Rightarrow> ColumnMetadata list \<Rightarrow> ColumnMetadata list" where
  "pushConflictColumns cols [] conflictColumns = conflictColumns"
| "pushConflictColumns cols (conflictPath # rest) conflictColumns =
     (case find (\<lambda>col. databaseName col = conflictPath) cols of
        None \<Rightarrow> pushConflictColumns cols rest conflictColumns
      | Some column \<Rightarrow> pushConflictColumns cols rest (conflictColumns @ [column]))"

text \<open>
  The guard \<^verbatim>\<open>if (this.expressionMap.onUpdate?.conflict)\<close> is a truthiness test: it fails
  for a missing \<^verbatim>\<open>onUpdate\<close>, a missing \<^verbatim>\<open>conflict\<close> and the empty string; every array
  passes, the empty one too.
\<close>

text \<open>\<^verbatim>\<open>Array.isArray(conflict) ? conflict : [conflict]\<close>.\<close>

definition conflictsOf :: "conflict_target \<Rightarrow> string list" where
  "conflictsOf target =
     (case target of ConflictArray conflicts \<Rightarrow> conflicts | ConflictString s \<Rightarrow> [s])"

definition getConflictColumns :: "ReturningResultsEntityUpdator \<Rightarrow> ColumnMetadata list" where
  "getConflictColumns this =
     (case onUpdate (expressionMap this) of
        None \<Rightarrow> []
      | Some ou \<Rightarrow>
          (case conflict ou of
             None \<Rightarrow> []
           | Some target \<Rightarrow>
               (if target = ConflictString [] then []
                else pushConflictColumns (columns (metadata (expressionMap this)))
                       (conflictsOf target) [])))"

section \<open>Collaborators the updator calls\<close>

text \<open>
  Modelled from the spec: the Merge Utility (\<^verbatim>\<open>EntityManager.merge\<close>, which is defined
  outside these sources). It overlays the source's field values onto the destination, a
  later value winning, and removes no field of the destination. The updator also hands it
  \<^verbatim>\<open>undefined\<close> as source (a position with no resolved row), which leaves the
  destination untouched.
\<close>

fun merge :: "ObjectLiteral \<Rightarrow> ObjectLiteral option \<Rightarrow> ObjectLiteral" where
  "merge destination None = destination"
| "merge destination (Some []) = destination"
| "merge destination (Some ((k, v) # source)) = merge (assign k v destination) (Some source)"

text \<open>
  Entities are objects the caller owns and the updator mutates: the entity list holds
  references, the store holds the object each reference points to. The same reference may
  occur at several positions.
\<close>

type_synonym store = "nat \<Rightarrow> ObjectLiteral"

record UpdateResult =
  raw :: val
  generatedMaps :: "ObjectLiteral list"

record InsertResult = UpdateResult +
  identifiers :: "ObjectLiteral option list"

datatype error = TypeORMError string | TypeError

text \<open>The reads handed to the query service, in the order they are issued.\<close>

datatype issued_read = ReadOne nat SelectQuery | ReadMany SelectQuery

text \<open>
  \<^verbatim>\<open>Promise.all\<close> over asynchronous callbacks: every callback runs up to its first
  \<^verbatim>\<open>await\<close> in entity order, the rest of each runs when its read completes, in an order
  the updator does not control. The order is the parameter \<open>picks\<close>: each pick selects
  which of the reads still pending completes next; without picks they complete in the
  order they were issued.
\<close>

function completionOrder :: "nat list \<Rightarrow> 'a list \<Rightarrow> 'a list" where
  "completionOrder picks [] = []"
| "completionOrder [] (t # ts) = t # ts"
| "completionOrder (p # picks) (t # ts) =
     (let i = p mod length (t # ts)
      in (t # ts) ! i # completionOrder picks (take i (t # ts) @ drop (Suc i) (t # ts)))"
  by pat_completeness auto
termination
  by (relation "measure (\<lambda>(picks, ts). length ts)") auto

section \<open>Normalising the raw result\<close>

text \<open>\<^verbatim>\<open>rawItem[0]\<close>: a \<^verbatim>\<open>TypeError\<close> on \<^verbatim>\<open>undefined\<close> and \<^verbatim>\<open>null\<close>.\<close>

fun index0 :: "val \<Rightarrow> error + val" where
  "index0 Undefined = Inl TypeError"
| "index0 Null = Inl TypeError"
| "index0 (Arr items) = Inr (case items of [] \<Rightarrow> Undefined | x # _ \<Rightarrow> x)"
| "index0 (Str s) = Inr (case s of [] \<Rightarrow> Undefined | c # _ \<Rightarrow> Str [c])"
| "index0 (Obj ps) = Inr (case map_of ps ''0'' of None \<Rightarrow> Undefined | Some v \<Rightarrow> v)"
| "index0 (Bool b) = Inr Undefined"
| "index0 (Num n) = Inr Undefined"

text \<open>
  The oracle \<^verbatim>\<open>reduce\<close>: \<^verbatim>\<open>extraReturningColumns[rawItemIndex].databaseName\<close> is a
  \<^verbatim>\<open>TypeError\<close> when the raw array is longer than the extra returning columns.
\<close>

fun reduceRaw :: "ColumnMetadata list \<Rightarrow> val list \<Rightarrow> nat \<Rightarrow> ObjectLiteral \<Rightarrow> error + ObjectLiteral" where
  "reduceRaw extra [] rawItemIndex newRaw = Inr newRaw"
| "reduceRaw extra (rawItem # rest) rawItemIndex newRaw =
     (if rawItemIndex < length extra then
        (case index0 rawItem of
           Inl e \<Rightarrow> Inl e
         | Inr v \<Rightarrow>
             reduceRaw extra rest (Suc rawItemIndex)
               (assign (databaseName (extra ! rawItemIndex)) v newRaw))
      else Inl TypeError)"

text \<open>\<^verbatim>\<open>Array.isArray(raw) ? raw[entityIndex] : raw\<close>.\<close>

definition rawResult :: "val \<Rightarrow> nat \<Rightarrow> val" where
  "rawResult r entityIndex =
     (case r of
        Arr items \<Rightarrow> (if entityIndex < length items then items ! entityIndex else Undefined)
      | _ \<Rightarrow> r)"

definition normalizeUpdateRaw :: "ReturningResultsEntityUpdator \<Rightarrow> val \<Rightarrow> error + val" where
  "normalizeUpdateRaw this r =
     (case r of
        Arr items \<Rightarrow>
          (if optionsType (driver (queryRunner this)) = ''oracle''
              \<and> extraReturningColumns (expressionMap this) \<noteq> [] then
             (case reduceRaw (extraReturningColumns (expressionMap this)) items 0 [] of
                Inl e \<Rightarrow> Inl e
              | Inr newRaw \<Rightarrow> Inr (Obj newRaw))
           else Inr r)
      | _ \<Rightarrow> Inr r)"

definition normalizeInsertRaw :: "ReturningResultsEntityUpdator \<Rightarrow> val \<Rightarrow> error + val" where
  "normalizeInsertRaw this r =
     (case r of
        Arr items \<Rightarrow>
          (if extraReturningColumns (expressionMap this) \<noteq> [] then
             (if optionsType (driver (queryRunner this)) = ''oracle'' then
                (case reduceRaw (extraReturningColumns (expressionMap this)) items 0 [] of
                   Inl e \<Rightarrow> Inl e
                 | Inr newRaw \<Rightarrow> Inr (Obj newRaw))
              else if optionsType (driver (queryRunner this)) = ''spanner'' then
                Inr (case items of [] \<Rightarrow> Undefined | x # _ \<Rightarrow> x)
              else Inr r)
           else Inr r)
      | _ \<Rightarrow> Inr r)"

text \<open>
  The supplemental read: primary columns in \<^verbatim>\<open>select\<close>, the returning columns in
  \<^verbatim>\<open>addSelect\<close>, both as \<^verbatim>\<open>targetName + "." + propertyPath\<close>.
\<close>

definition selectPaths :: "EntityMetadata \<Rightarrow> ColumnMetadata list \<Rightarrow> string list" where
  "selectPaths md cols = map (\<lambda>column. targetName md @ ''.'' @ propertyPath column) cols"

definition reselect ::
  "EntityMetadata \<Rightarrow> ColumnMetadata list \<Rightarrow> where_arg \<Rightarrow> bool \<Rightarrow> SelectQuery" where
  "reselect md cols w deleted =
     \<lparr> selects = selectPaths md (primaryColumns md),
       addSelects = selectPaths md cols,
       fromAlias = targetName md,
       whereArg = w,
       withDeleted = deleted,
       options = [''create-pojo''] \<rparr>"

section \<open>update\<close>

record UpdateState =
  updateResult :: UpdateResult
  entityStore :: store
  issued :: "issued_read list"
  pending :: "(nat \<times> ObjectLiteral option) list"
  rejected :: "error option"

definition reject :: "error \<Rightarrow> UpdateState \<Rightarrow> UpdateState" where
  "reject e s = (case rejected s of None \<Rightarrow> s\<lparr>rejected := Some e\<rparr> | Some _ \<Rightarrow> s)"

text \<open>
  \<^verbatim>\<open>manager.merge(metadata.target, entity, row)\<close> followed by
  \<^verbatim>\<open>updateResult.generatedMaps.push(row)\<close>.
\<close>

definition mergeAndPush :: "nat \<Rightarrow> ObjectLiteral \<Rightarrow> UpdateState \<Rightarrow> UpdateState" where
  "mergeAndPush entity row s =
     s\<lparr> entityStore := (entityStore s)(entity := merge (entityStore s entity) (Some row)),
        updateResult := (updateResult s)\<lparr>generatedMaps := generatedMaps (updateResult s) @ [row]\<rparr> \<rparr>"

text \<open>The error of line 88.\<close>

definition entityIdNotSet :: error where
  "entityIdNotSet =
     TypeORMError ''Cannot update entity because entity id is not set in the entity.''"

text \<open>
  Lines 61 to 68: the row of this position in the raw result, and what the driver extracts
  from it.
\<close>

definition returningColumnsAt ::
  "ReturningResultsEntityUpdator \<Rightarrow> val \<Rightarrow> nat \<Rightarrow> ObjectLiteral option" where
  "returningColumnsAt this r entityIndex =
     createGeneratedMap (driver (queryRunner this)) (metadata (expressionMap this))
       (rawResult r entityIndex) None None"

text \<open>Lines 93 to 116: the read of the updation columns of the entity of this identifier.\<close>

definition loadReturningColumns ::
  "ReturningResultsEntityUpdator \<Rightarrow> ObjectLiteral \<Rightarrow> SelectQuery" where
  "loadReturningColumns this entityId =
     reselect (metadata (expressionMap this)) (extraReturningColumns (expressionMap this))
       (WhereObject entityId) True"

text \<open>
  The callback of \<^verbatim>\<open>entities.map\<close> up to its first \<^verbatim>\<open>await\<close>. With RETURNING it has no
  \<^verbatim>\<open>await\<close> and is the whole callback; a \<^verbatim>\<open>throw\<close> rejects the callback's promise
  and leaves the state as it was. The state records the reads issued, and the reads
  pending with the entity each one is for and the row it will give.
\<close>

definition updateEntity ::
  "ReturningResultsEntityUpdator \<Rightarrow> nat \<Rightarrow> nat \<Rightarrow> UpdateState \<Rightarrow> UpdateState" where
  "updateEntity this entity entityIndex s =
     (let md = metadata (expressionMap this) in
      if isReturningSqlSupported (driver (queryRunner this)) ''update'' then
        (case normalizeUpdateRaw this (raw (updateResult s)) of
           Inl e \<Rightarrow> reject e s
         | Inr newRaw \<Rightarrow>
             (let s1 = s\<lparr>updateResult := (updateResult s)\<lparr>raw := newRaw\<rparr>\<rparr>;
                  returningColumns = returningColumnsAt this newRaw entityIndex
              in case returningColumns of
                   None \<Rightarrow> s1
                 | Some rc \<Rightarrow> mergeAndPush entity rc s1))
      else
        (let updationColumns = extraReturningColumns (expressionMap this) in
         if updationColumns \<noteq> [] then
           (case getEntityIdMap md (entityStore s entity) of
              None \<Rightarrow>
                reject entityIdNotSet s
            | Some entityId \<Rightarrow>
                (let q = loadReturningColumns this entityId
                 in s\<lparr> issued := issued s @ [ReadOne entityIndex q],
                       pending := pending s @ [(entity, getOne (queryRunner this) q)] \<rparr>))
         else s))"

fun updateEntities ::
  "ReturningResultsEntityUpdator \<Rightarrow> nat list \<Rightarrow> nat \<Rightarrow> UpdateState \<Rightarrow> UpdateState" where
  "updateEntities this [] entityIndex s = s"
| "updateEntities this (entity # rest) entityIndex s =
     updateEntities this rest (Suc entityIndex) (updateEntity this entity entityIndex s)"

text \<open>The rest of a callback, once its read has come back.\<close>

definition updateLoaded :: "nat \<times> ObjectLiteral option \<Rightarrow> UpdateState \<Rightarrow> UpdateState" where
  "updateLoaded t s =
     (case snd t of
        None \<Rightarrow> s
      | Some loadedReturningColumns \<Rightarrow> mergeAndPush (fst t) loadedReturningColumns s)"

definition initialUpdateState :: "UpdateResult \<Rightarrow> store \<Rightarrow> UpdateState" where
  "initialUpdateState res h =
     \<lparr> updateResult = res, entityStore = h, issued = [], pending = [], rejected = None \<rparr>"

text \<open>
  \<^verbatim>\<open>update\<close>. \<^verbatim>\<open>Promise.all\<close> rejects with the first rejection, and the caller then
  sees only the error; otherwise the pending reads complete in the order \<open>picks\<close> gives.
\<close>

definition update_entities ::
  "ReturningResultsEntityUpdator \<Rightarrow> nat list \<Rightarrow> UpdateResult \<Rightarrow> nat list \<Rightarrow> store
     \<Rightarrow> error + (UpdateResult \<times> store \<times> issued_read list)" where
  "update_entities this picks res entities h =
     (let s = updateEntities this entities 0 (initialUpdateState res h)
      in case rejected s of
           Some e \<Rightarrow> Inl e
         | None \<Rightarrow>
             (let s' = fold updateLoaded (completionOrder picks (pending s)) s
              in Inr (updateResult s', entityStore s', issued s')))"

text \<open>
  What \<^verbatim>\<open>update\<close> has to merge and push for a position. \<open>readFor\<close> is the read issued
  for an entity without RETURNING, when its identifier is set; \<open>obtained\<close> is the generated
  map extracted from the raw result \<open>r\<close> with RETURNING, and the row the read finds
  without.
\<close>

definition readFor :: "ReturningResultsEntityUpdator \<Rightarrow> store \<Rightarrow> nat \<Rightarrow> SelectQuery option" where
  "readFor this h entity =
     map_option (loadReturningColumns this)
       (getEntityIdMap (metadata (expressionMap this)) (h entity))"

definition obtained ::
  "ReturningResultsEntityUpdator \<Rightarrow> val \<Rightarrow> store \<Rightarrow> nat list \<Rightarrow> nat \<Rightarrow> ObjectLiteral option" where
  "obtained this r h entities i =
     (if isReturningSqlSupported (driver (queryRunner this)) ''update'' then
        returningColumnsAt this r i
      else if extraReturningColumns (expressionMap this) \<noteq> [] then
        (case readFor this h (entities ! i) of
           None \<Rightarrow> None
         | Some q \<Rightarrow> getOne (queryRunner this) q)
      else None)"

section \<open>insert\<close>

text \<open>
  The callback of the first \<^verbatim>\<open>entities.map\<close>: normalise the raw result, extract the
  generated map (\<^verbatim>\<open>|| {}\<close> when the driver gives none), put the locally generated values
  of this position on top, merge the map into the entity, return the map.
\<close>

definition insertEntity ::
  "ReturningResultsEntityUpdator \<Rightarrow> nat \<Rightarrow> nat \<Rightarrow> nat \<Rightarrow> val \<times> store
     \<Rightarrow> error + (val \<times> store \<times> ObjectLiteral)" where
  "insertEntity this n entity entityIndex st =
     (case normalizeInsertRaw this (fst st) of
        Inl e \<Rightarrow> Inl e
      | Inr newRaw \<Rightarrow>
          (let result = rawResult newRaw entityIndex;
               created =
                 (case createGeneratedMap (driver (queryRunner this))
                         (metadata (expressionMap this)) result (Some entityIndex) (Some n) of
                    None \<Rightarrow> []
                  | Some m \<Rightarrow> m);
               generatedMap =
                 (case locallyGenerated (expressionMap this) entityIndex of
                    None \<Rightarrow> created
                  | Some lg \<Rightarrow> merge created (Some lg))
           in Inr (newRaw, (snd st)(entity := merge (snd st entity) (Some generatedMap)),
                   generatedMap)))"

fun insertGeneratedMaps ::
  "ReturningResultsEntityUpdator \<Rightarrow> nat \<Rightarrow> nat list \<Rightarrow> nat \<Rightarrow> val \<times> store
     \<Rightarrow> error + (val \<times> store \<times> ObjectLiteral list)" where
  "insertGeneratedMaps this n [] entityIndex st = Inr (fst st, snd st, [])"
| "insertGeneratedMaps this n (entity # rest) entityIndex st =
     (case insertEntity this n entity entityIndex st of
        Inl e \<Rightarrow> Inl e
      | Inr (r1, h1, generatedMap) \<Rightarrow>
          (case insertGeneratedMaps this n rest (Suc entityIndex) (r1, h1) of
             Inl e \<Rightarrow> Inl e
           | Inr (r2, h2, gms) \<Rightarrow> Inr (r2, h2, generatedMap # gms)))"

definition insertionColumns :: "ReturningResultsEntityUpdator \<Rightarrow> ColumnMetadata list" where
  "insertionColumns this =
     (let isReturningClauseSupported =
            isReturningSqlSupported (driver (queryRunner this)) ''insert''
      in filter (\<lambda>column. if \<not> isGenerated column then True else isReturningClauseSupported)
           (getInsertionReturningColumns (metadata (expressionMap this))))"

text \<open>The partition of the entities by \<^verbatim>\<open>getEntityIdMap\<close>.\<close>

definition entityIds :: "EntityMetadata \<Rightarrow> store \<Rightarrow> nat list \<Rightarrow> ObjectLiteral list" where
  "entityIds md h entities = List.map_filter (\<lambda>entity. getEntityIdMap md (h entity)) entities"

definition conflictBasedEntities :: "EntityMetadata \<Rightarrow> store \<Rightarrow> nat list \<Rightarrow> (nat \<times> nat) list" where
  "conflictBasedEntities md h entities =
     filter (\<lambda>(entity, index). getEntityIdMap md (h entity) = None)
       (zip entities [0..<length entities])"

fun buildWhereCondition ::
  "ColumnMetadata list \<Rightarrow> ObjectLiteral \<Rightarrow> ObjectLiteral \<Rightarrow> ObjectLiteral" where
  "buildWhereCondition [] entity whereCondition = whereCondition"
| "buildWhereCondition (column # rest) entity whereCondition =
     (let v = getEntityValue column entity
      in if v \<noteq> Undefined \<and> v \<noteq> Null then
           buildWhereCondition rest entity (assign (propertyPath column) v whereCondition)
         else buildWhereCondition rest entity whereCondition)"

text \<open>
  Lines 243 to 277, up to the \<^verbatim>\<open>await\<close>: the read built for a conflict-based entity, and
  none when its \<^verbatim>\<open>whereCondition\<close> has no key.
\<close>

definition conflictRead ::
  "ReturningResultsEntityUpdator \<Rightarrow> ColumnMetadata list \<Rightarrow> ObjectLiteral \<Rightarrow> SelectQuery option" where
  "conflictRead this conflictColumns entity =
     (let whereCondition = buildWhereCondition conflictColumns entity []
      in if whereCondition \<noteq> [] then
           Some (reselect (metadata (expressionMap this)) (insertionColumns this)
                   (WhereObject whereCondition) False)
         else None)"

text \<open>
  The callbacks over \<^verbatim>\<open>conflictBasedEntities\<close> up to their \<^verbatim>\<open>await\<close>: the reads issued,
  each with the position of its entity.
\<close>

definition conflictReads ::
  "ReturningResultsEntityUpdator \<Rightarrow> store \<Rightarrow> ColumnMetadata list \<Rightarrow> (nat \<times> nat) list
     \<Rightarrow> (nat \<times> SelectQuery) list" where
  "conflictReads this h conflictColumns cb =
     List.map_filter
       (\<lambda>(entity, index). map_option (Pair index) (conflictRead this conflictColumns (h entity)))
       cb"

text \<open>After the \<^verbatim>\<open>await\<close>: \<^verbatim>\<open>if (conflictResult) returningResult[index] = conflictResult\<close>.\<close>

definition recordConflictResult ::
  "nat \<times> ObjectLiteral option \<Rightarrow> ObjectLiteral option list \<Rightarrow> ObjectLiteral option list" where
  "recordConflictResult t returningResult =
     (case snd t of
        None \<Rightarrow> returningResult
      | Some conflictResult \<Rightarrow> returningResult[fst t := Some conflictResult])"

text \<open>Reading an array slot: \<^verbatim>\<open>undefined\<close> for a hole and beyond the end.\<close>

definition slot :: "'a option list \<Rightarrow> nat \<Rightarrow> 'a option" where
  "slot xs i = (if i < length xs then xs ! i else None)"

definition rowAt :: "'a list \<Rightarrow> nat \<Rightarrow> 'a option" where
  "rowAt xs i = (if i < length xs then Some (xs ! i) else None)"

text \<open>
  The loop under \<^verbatim>\<open>// map results back to correct positions\<close>, with its counter
  \<^verbatim>\<open>resultIndex\<close>.
\<close>

fun mapResultsBack ::
  "EntityMetadata \<Rightarrow> store \<Rightarrow> ObjectLiteral list \<Rightarrow> nat list \<Rightarrow> nat \<Rightarrow> nat
     \<Rightarrow> ObjectLiteral option list \<Rightarrow> ObjectLiteral option list" where
  "mapResultsBack md h resultWithIds [] index resultIndex returningResult = returningResult"
| "mapResultsBack md h resultWithIds (entity # rest) index resultIndex returningResult =
     (case getEntityIdMap md (h entity) of
        None \<Rightarrow> mapResultsBack md h resultWithIds rest (Suc index) resultIndex returningResult
      | Some entityId \<Rightarrow>
          (if list_all (\<lambda>v. v \<noteq> Undefined \<and> v \<noteq> Null) (map snd entityId) then
             mapResultsBack md h resultWithIds rest (Suc index) (Suc resultIndex)
               (returningResult[index := rowAt resultWithIds resultIndex])
           else mapResultsBack md h resultWithIds rest (Suc index) resultIndex returningResult))"

text \<open>
  The array \<^verbatim>\<open>returningResult\<close> after both kinds of supplemental read, and the reads
  issued. The conflict reads complete in the order \<open>picks\<close> gives.
\<close>

definition returningResults ::
  "ReturningResultsEntityUpdator \<Rightarrow> nat list \<Rightarrow> nat list \<Rightarrow> store
     \<Rightarrow> ObjectLiteral option list \<times> issued_read list" where
  "returningResults this picks entities h =
     (let md = metadata (expressionMap this);
          ids = entityIds md h entities;
          cb = conflictBasedEntities md h entities;
          returningResult = replicate (length entities) None;
          reads =
            (if cb \<noteq> [] then
               (let conflictColumns = getConflictColumns this
                in if conflictColumns \<noteq> [] then conflictReads this h conflictColumns cb else [])
             else []);
          returningResult1 =
            fold recordConflictResult
              (completionOrder picks
                 (map (\<lambda>(index, q). (index, getOne (queryRunner this) q)) reads))
              returningResult;
          issuedReads = map (\<lambda>(index, q). ReadOne index q) reads
      in if insertionColumns this \<noteq> [] \<and> ids \<noteq> [] then
           (let q = reselect md (insertionColumns this) (WhereArray ids) False;
                resultWithIds = getMany (queryRunner this) q
            in (mapResultsBack md h resultWithIds entities 0 0 returningResult1,
                issuedReads @ [ReadMany q]))
         else (returningResult1, issuedReads))"

text \<open>
  The \<^verbatim>\<open>forEach\<close> that merges \<^verbatim>\<open>returningResult[entityIndex]\<close> into the generated map of
  the position and into the entity. Both arrays have one slot for each entity.
\<close>

fun mergeReturning ::
  "ObjectLiteral option list \<Rightarrow> nat list \<Rightarrow> nat \<Rightarrow> ObjectLiteral list \<times> store
     \<Rightarrow> ObjectLiteral list \<times> store" where
  "mergeReturning returningResult [] entityIndex st = st"
| "mergeReturning returningResult (entity # rest) entityIndex st =
     mergeReturning returningResult rest (Suc entityIndex)
       ((fst st)[entityIndex := merge (fst st ! entityIndex) (slot returningResult entityIndex)],
        (snd st)(entity := merge (snd st entity) (slot returningResult entityIndex)))"

text \<open>The last \<^verbatim>\<open>forEach\<close>: one identifier and one generated map pushed for each entity.\<close>

fun pushResults ::
  "EntityMetadata \<Rightarrow> store \<Rightarrow> ObjectLiteral list \<Rightarrow> nat list \<Rightarrow> nat \<Rightarrow> InsertResult
     \<Rightarrow> InsertResult" where
  "pushResults md h gms [] entityIndex res = res"
| "pushResults md h gms (entity # rest) entityIndex res =
     pushResults md h gms rest (Suc entityIndex)
       (res\<lparr> identifiers := identifiers res @ [getEntityIdMap md (h entity)],
             generatedMaps := generatedMaps res @ [gms ! entityIndex] \<rparr>)"

text \<open>
  \<^verbatim>\<open>insert\<close>. A \<^verbatim>\<open>TypeError\<close> in the first \<^verbatim>\<open>entities.map\<close> is thrown out of
  \<^verbatim>\<open>insert\<close> at once.
\<close>

definition insert_entities ::
  "ReturningResultsEntityUpdator \<Rightarrow> nat list \<Rightarrow> InsertResult \<Rightarrow> nat list \<Rightarrow> store
     \<Rightarrow> error + (InsertResult \<times> store \<times> issued_read list)" where
  "insert_entities this picks res entities h =
     (case insertGeneratedMaps this (length entities) entities 0 (raw res, h) of
        Inl e \<Rightarrow> Inl e
      | Inr (r1, h1, gms1) \<Rightarrow>
          (if \<not> isReturningSqlSupported (driver (queryRunner this)) ''insert'' then
             (let rr = returningResults this picks entities h1;
                  st = mergeReturning (fst rr) entities 0 (gms1, h1)
              in Inr (pushResults (metadata (expressionMap this)) (snd st) (fst st) entities 0
                        (res\<lparr>raw := r1\<rparr>),
                      snd st, snd rr))
           else
             Inr (pushResults (metadata (expressionMap this)) h1 gms1 entities 0
                    (res\<lparr>raw := r1\<rparr>),
                  h1, [])))"

text \<open>The fields a source of \<^verbatim>\<open>merge\<close> addresses: none when the source is \<^verbatim>\<open>undefined\<close>.\<close>

definition addressed :: "ObjectLiteral option \<Rightarrow> string set" where
  "addressed source = (case source of None \<Rightarrow> {} | Some s \<Rightarrow> keys s)"

text \<open>One call \<^verbatim>\<open>manager.merge(metadata.target, entity, source)\<close> on the store.\<close>

definition mergeInto :: "nat \<times> ObjectLiteral option \<Rightarrow> store \<Rightarrow> store" where
  "mergeInto t h = h(fst t := merge (h (fst t)) (snd t))"

text \<open>The reads of a trace that were issued for one position, and its batched reads.\<close>

definition readsOfPosition :: "nat \<Rightarrow> issued_read list \<Rightarrow> issued_read list" where
  "readsOfPosition i reads =
     filter (\<lambda>r. case r of ReadOne index q \<Rightarrow> index = i | ReadMany q \<Rightarrow> False) reads"

definition batchedReads :: "issued_read list \<Rightarrow> issued_read list" where
  "batchedReads reads =
     filter (\<lambda>r. case r of ReadOne index q \<Rightarrow> False | ReadMany q \<Rightarrow> True) reads"

section \<open>The entity of the upsert test\<close>

text \<open>
  \<^verbatim>\<open>test/github-issues/11516/entity/Test.ts\<close>: a generated primary column \<^verbatim>\<open>id\<close> and the
  columns \<^verbatim>\<open>key1\<close>, \<^verbatim>\<open>key2\<close>, \<^verbatim>\<open>value\<close>. A column reads its own property of an
  entity; the identifier of an entity is its \<^verbatim>\<open>id\<close> when that is set.
\<close>

definition property :: "string \<Rightarrow> ObjectLiteral \<Rightarrow> val" where
  "property k obj = (case map_of obj k of None \<Rightarrow> Undefined | Some v \<Rightarrow> v)"

definition testColumn :: "string \<Rightarrow> bool \<Rightarrow> ColumnMetadata" where
  "testColumn name generated =
     \<lparr> databaseName = name, propertyPath = name, asExpression = None, isUpdateDate = False,
       isVersion = False, isDeleteDate = False, isGenerated = generated,
       getEntityValue = property name \<rparr>"

definition testIdMap :: "ObjectLiteral \<Rightarrow> ObjectLiteral option" where
  "testIdMap entity =
     (case map_of entity ''id'' of
        None \<Rightarrow> None
      | Some v \<Rightarrow> (if v = Undefined \<or> v = Null then None else Some [(''id'', v)]))"

definition testMetadata :: "ColumnMetadata list \<Rightarrow> EntityMetadata" where
  "testMetadata returning =
     \<lparr> targetName = ''Test'',
       columns = [testColumn ''id'' True, testColumn ''key1'' False,
                  testColumn ''key2'' False, testColumn ''value'' False],
       primaryColumns = [testColumn ''id'' True],
       getEntityIdMap = testIdMap,
       getInsertionReturningColumns = returning \<rparr>"

text \<open>
  A table of rows stands for the database of the test: a read gives the rows that agree
  with its \<^verbatim>\<open>where\<close> argument, in the order of the table.
\<close>

definition agrees :: "ObjectLiteral \<Rightarrow> ObjectLiteral \<Rightarrow> bool" where
  "agrees w row = list_all (\<lambda>(k, v). map_of row k = Some v) w"

fun matches :: "where_arg \<Rightarrow> ObjectLiteral \<Rightarrow> bool" where
  "matches (WhereObject w) row = agrees w row"
| "matches (WhereArray ws) row = list_ex (\<lambda>w. agrees w row) ws"

definition testDriver :: "bool \<Rightarrow> Driver" where
  "testDriver supported =
     \<lparr> isReturningSqlSupported = (\<lambda>operation. supported),
       optionsType = (if supported then ''postgres'' else ''mysql''),
       createGeneratedMap =
         (\<lambda>md result entityIndex entityNum. case result of Obj ps \<Rightarrow> Some ps | _ \<Rightarrow> None) \<rparr>"

definition testUpdator ::
  "bool \<Rightarrow> ColumnMetadata list \<Rightarrow> conflict_target option \<Rightarrow> ObjectLiteral list
     \<Rightarrow> ReturningResultsEntityUpdator" where
  "testUpdator supported returning target table =
     \<lparr> queryRunner =
         \<lparr> driver = testDriver supported,
           getOne = (\<lambda>q. find (matches (whereArg q)) table),
           getMany = (\<lambda>q. filter (matches (whereArg q)) table) \<rparr>,
       expressionMap =
         \<lparr> metadata = testMetadata returning,
           extraReturningColumns = returning,
           locallyGenerated = Map.empty,
           onUpdate = Some \<lparr> conflict = target \<rparr> \<rparr> \<rparr>"

text \<open>Metadata with an update date, a version and a delete date column.\<close>

definition stampedColumn :: "string \<Rightarrow> bool \<Rightarrow> bool \<Rightarrow> bool \<Rightarrow> ColumnMetadata" where
  "stampedColumn name updateDate version deleteDate =
     (testColumn name False)
       \<lparr> isUpdateDate := updateDate, isVersion := version, isDeleteDate := deleteDate \<rparr>"

definition withColumns ::
  "ColumnMetadata list \<Rightarrow> ReturningResultsEntityUpdator \<Rightarrow> ReturningResultsEntityUpdator" where
  "withColumns cols this =
     this\<lparr> expressionMap :=
             (expressionMap this)\<lparr> metadata := (metadata (expressionMap this))\<lparr> columns := cols \<rparr> \<rparr> \<rparr>"

definition stampedUpdator :: ReturningResultsEntityUpdator where
  "stampedUpdator =
     withColumns
       [testColumn ''id'' True, stampedColumn ''updatedAt'' True False False,
        stampedColumn ''version'' False True False, stampedColumn ''deletedAt'' False False True]
       (testUpdator False [] None [])"

section \<open>Properties of the selectors and of the resolver\<close>

text \<open>
  C8. The soft-delete-returning columns are the update-returning columns together with
  the columns flagged as delete date, in the order of the metadata; so every
  update-returning column is a soft-delete-returning column, and the update-returning
  columns are the soft-delete-returning ones that have a generation expression, the
  update-date flag or the version flag.
\<close>

theorem softDeletion_is_updation_plus_deleteDate:
  "set (getSoftDeletionReturningColumns this)
     = set (getUpdationReturningColumns this)
       \<union> set (filter isDeleteDate (columns (metadata (expressionMap this))))
   \<and> getSoftDeletionReturningColumns this
     = filter (\<lambda>column. column \<in> set (getUpdationReturningColumns this) \<or> isDeleteDate column)
         (columns (metadata (expressionMap this)))
   \<and> getUpdationReturningColumns this
     = filter (\<lambda>column. asExpression column \<noteq> None \<or> isUpdateDate column \<or> isVersion column)
         (getSoftDeletionReturningColumns this)
   \<and> set (getUpdationReturningColumns this) \<subseteq> set (getSoftDeletionReturningColumns this)"
proof -
  let ?cols = "columns (metadata (expressionMap this))"
  have a: "set (getSoftDeletionReturningColumns this)
     = set (getUpdationReturningColumns this) \<union> set (filter isDeleteDate ?cols)"
    unfolding getSoftDeletionReturningColumns_def getUpdationReturningColumns_def by auto
  have b: "getSoftDeletionReturningColumns this
     = filter (\<lambda>column. column \<in> set (getUpdationReturningColumns this) \<or> isDeleteDate column) ?cols"
    unfolding getSoftDeletionReturningColumns_def getUpdationReturningColumns_def
    by (rule filter_cong) auto
  have c: "getUpdationReturningColumns this
     = filter (\<lambda>column. asExpression column \<noteq> None \<or> isUpdateDate column \<or> isVersion column)
         (getSoftDeletionReturningColumns this)"
    unfolding getSoftDeletionReturningColumns_def getUpdationReturningColumns_def
    by (auto intro: filter_cong)
  have d: "set (getUpdationReturningColumns this) \<subseteq> set (getSoftDeletionReturningColumns this)"
    using a by blast
  show ?thesis by (intro conjI a b c d)
qed

theorem softDeletion_is_updation_plus_deleteDate_witness:
  "map databaseName (getUpdationReturningColumns stampedUpdator) = [''updatedAt'', ''version'']
   \<and> map databaseName (getSoftDeletionReturningColumns stampedUpdator)
     = [''updatedAt'', ''version'', ''deletedAt'']
   \<and> set (getSoftDeletionReturningColumns stampedUpdator)
     = set (getUpdationReturningColumns stampedUpdator)
       \<union> set (filter isDeleteDate (columns (metadata (expressionMap stampedUpdator))))"
proof -
  have ev: "map databaseName (getUpdationReturningColumns stampedUpdator) = [''updatedAt'', ''version'']
     \<and> map databaseName (getSoftDeletionReturningColumns stampedUpdator)
       = [''updatedAt'', ''version'', ''deletedAt'']"
    by (simp add: getUpdationReturningColumns_def getSoftDeletionReturningColumns_def
        stampedUpdator_def withColumns_def testUpdator_def stampedColumn_def testColumn_def)
  from softDeletion_is_updation_plus_deleteDate [of stampedUpdator] ev show ?thesis
    by blast
qed

lemma pushConflictColumns_eq:
  "pushConflictColumns cols ps acc
     = acc @ List.map_filter (\<lambda>p. find (\<lambda>col. databaseName col = p) cols) ps"
  by (induction ps arbitrary: acc) (auto split: option.splits)

lemma find_databaseName:
  "find (\<lambda>col. databaseName col = p) cols = Some c \<Longrightarrow> databaseName c = p \<and> c \<in> set cols"
  by (auto simp: find_Some_iff)

lemma find_databaseName_None:
  "find (\<lambda>col. databaseName col = p) cols = None \<longleftrightarrow> p \<notin> databaseName ` set cols"
  by (auto simp: find_None_iff)

lemma map_filter_find_names:
  "map databaseName (List.map_filter (\<lambda>p. find (\<lambda>col. databaseName col = p) cols) ps)
     = filter (\<lambda>p. p \<in> databaseName ` set cols) ps"
proof (induction ps)
  case Nil
  show ?case by simp
next
  case (Cons p ps)
  show ?case
  proof (cases "find (\<lambda>col. databaseName col = p) cols")
    case None
    with Cons show ?thesis
      using find_databaseName_None [of p cols] by simp
  next
    case (Some c)
    then have "databaseName c = p" "c \<in> set cols"
      using find_databaseName by blast+
    with Some Cons show ?thesis by auto
  qed
qed

lemma map_filter_find_subset:
  "set (List.map_filter (\<lambda>p. find (\<lambda>col. databaseName col = p) cols) ps) \<subseteq> set cols"
  by (auto simp: List.map_filter_def dest: find_databaseName)

text \<open>
  C7. With \<^verbatim>\<open>onUpdate\<close> set: when the conflict target is a single name that is not the
  empty string, the resolver returns the first column of the metadata whose database name
  is that name, and no column when there is none; when the target is a list of names, it
  returns, in the order of the list, the first column of each name that is a database
  name of the metadata, and leaves the other names out. The result holds only columns of
  the metadata. The resolver is a total function into column lists: a stale name raises
  nothing.
\<close>

theorem getConflictColumns_resolves:
  assumes "onUpdate (expressionMap this) = Some ou"
  shows "(conflict ou = Some (ConflictString name) \<and> name \<noteq> [] \<longrightarrow>
            getConflictColumns this
              = (case find (\<lambda>col. databaseName col = name)
                        (columns (metadata (expressionMap this))) of
                   None \<Rightarrow> []
                 | Some column \<Rightarrow> [column])
            \<and> map databaseName (getConflictColumns this)
                = (if name \<in> databaseName ` set (columns (metadata (expressionMap this)))
                   then [name] else []))
       \<and> (conflict ou = Some (ConflictArray names) \<longrightarrow>
            getConflictColumns this
              = List.map_filter
                  (\<lambda>name. find (\<lambda>col. databaseName col = name)
                             (columns (metadata (expressionMap this))))
                  names
            \<and> map databaseName (getConflictColumns this)
                = filter (\<lambda>name. name \<in> databaseName ` set (columns (metadata (expressionMap this))))
                    names)
       \<and> set (getConflictColumns this) \<subseteq> set (columns (metadata (expressionMap this)))"
proof -
  let ?cols = "columns (metadata (expressionMap this))"
  let ?find = "\<lambda>name. find (\<lambda>col. databaseName col = name) ?cols"
  have single: "getConflictColumns this = (case ?find name of None \<Rightarrow> [] | Some column \<Rightarrow> [column])
            \<and> map databaseName (getConflictColumns this)
                = (if name \<in> databaseName ` set ?cols then [name] else [])"
    if "conflict ou = Some (ConflictString name)" and "name \<noteq> []"
  proof -
    have eq: "getConflictColumns this = List.map_filter ?find [name]"
      using assms that by (simp add: getConflictColumns_def conflictsOf_def pushConflictColumns_eq)
    have a: "getConflictColumns this = (case ?find name of None \<Rightarrow> [] | Some column \<Rightarrow> [column])"
      unfolding eq by (simp split: option.split)
    have b: "map databaseName (getConflictColumns this)
                = (if name \<in> databaseName ` set ?cols then [name] else [])"
      unfolding eq map_filter_find_names by simp
    from a b show ?thesis by (rule conjI)
  qed
  have many: "getConflictColumns this = List.map_filter ?find names
            \<and> map databaseName (getConflictColumns this)
                = filter (\<lambda>name. name \<in> databaseName ` set ?cols) names"
    if "conflict ou = Some (ConflictArray names)"
  proof -
    have eq: "getConflictColumns this = List.map_filter ?find names"
      using assms that by (simp add: getConflictColumns_def conflictsOf_def pushConflictColumns_eq)
    show ?thesis
      unfolding eq by (simp add: map_filter_find_names)
  qed
  have sub: "set (getConflictColumns this) \<subseteq> set ?cols"
  proof (cases "conflict ou")
    case None
    with assms show ?thesis by (simp add: getConflictColumns_def)
  next
    case (Some target)
    show ?thesis
    proof (cases "target = ConflictString []")
      case True
      with assms Some show ?thesis by (simp add: getConflictColumns_def)
    next
      case False
      have "getConflictColumns this = List.map_filter ?find (conflictsOf target)"
        using assms Some False by (simp add: getConflictColumns_def pushConflictColumns_eq)
      then show ?thesis by (simp add: map_filter_find_subset)
    qed
  qed
  from single many sub show ?thesis by blast
qed

theorem getConflictColumns_resolves_witness:
  "onUpdate (expressionMap (testUpdator False [] (Some (ConflictString ''key1'')) []))
     = Some \<lparr> conflict = Some (ConflictString ''key1'') \<rparr>
   \<and> conflict \<lparr> conflict = Some (ConflictString ''key1'') \<rparr> = Some (ConflictString ''key1'')
   \<and> ''key1'' \<noteq> []
   \<and> getConflictColumns (testUpdator False [] (Some (ConflictString ''key1'')) [])
     = [testColumn ''key1'' False]
   \<and> onUpdate (expressionMap (testUpdator False [] (Some (ConflictString ''renamed'')) []))
     = Some \<lparr> conflict = Some (ConflictString ''renamed'') \<rparr>
   \<and> getConflictColumns (testUpdator False [] (Some (ConflictString ''renamed'')) []) = []
   \<and> onUpdate (expressionMap
         (testUpdator False [] (Some (ConflictArray [''key2'', ''renamed'', ''key1''])) []))
     = Some \<lparr> conflict = Some (ConflictArray [''key2'', ''renamed'', ''key1'']) \<rparr>
   \<and> getConflictColumns
       (testUpdator False [] (Some (ConflictArray [''key2'', ''renamed'', ''key1''])) [])
     = [testColumn ''key2'' False, testColumn ''key1'' False]"
proof -
  let ?U1 = "testUpdator False [] (Some (ConflictString ''key1'')) []"
  let ?U2 = "testUpdator False [] (Some (ConflictString ''renamed'')) []"
  let ?U3 = "testUpdator False [] (Some (ConflictArray [''key2'', ''renamed'', ''key1''])) []"
  let ?o1 = "\<lparr> conflict = Some (ConflictString ''key1'') \<rparr>"
  let ?o2 = "\<lparr> conflict = Some (ConflictString ''renamed'') \<rparr>"
  let ?o3 = "\<lparr> conflict = Some (ConflictArray [''key2'', ''renamed'', ''key1'']) \<rparr>"
  have 1: "onUpdate (expressionMap ?U1) = Some ?o1" by (simp add: testUpdator_def)
  have 2: "onUpdate (expressionMap ?U2) = Some ?o2" by (simp add: testUpdator_def)
  have 3: "onUpdate (expressionMap ?U3) = Some ?o3" by (simp add: testUpdator_def)
  have c1: "conflict ?o1 = Some (ConflictString ''key1'')" by simp
  have c2: "conflict ?o2 = Some (ConflictString ''renamed'')" by simp
  have c3: "conflict ?o3 = Some (ConflictArray [''key2'', ''renamed'', ''key1''])" by simp
  have n1: "''key1'' \<noteq> []" and n2: "''renamed'' \<noteq> []" by simp_all
  have f1: "find (\<lambda>col. databaseName col = ''key1'') (columns (metadata (expressionMap ?U1)))
              = Some (testColumn ''key1'' False)"
    by (simp add: testUpdator_def testMetadata_def testColumn_def)
  have f2: "find (\<lambda>col. databaseName col = ''renamed'') (columns (metadata (expressionMap ?U2)))
              = None"
    by (simp add: testUpdator_def testMetadata_def testColumn_def)
  have f3: "List.map_filter
              (\<lambda>name. find (\<lambda>col. databaseName col = name) (columns (metadata (expressionMap ?U3))))
              [''key2'', ''renamed'', ''key1'']
              = [testColumn ''key2'' False, testColumn ''key1'' False]"
    by (simp add: testUpdator_def testMetadata_def testColumn_def)
  from getConflictColumns_resolves [OF 1, of "''key1''"] c1 n1 f1
  have a: "getConflictColumns ?U1 = [testColumn ''key1'' False]" by simp
  from getConflictColumns_resolves [OF 2, of "''renamed''"] c2 n2 f2
  have b: "getConflictColumns ?U2 = []" by simp
  from getConflictColumns_resolves [OF 3, of _ "[''key2'', ''renamed'', ''key1'']"] c3 f3
  have c: "getConflictColumns ?U3 = [testColumn ''key2'' False, testColumn ''key1'' False]" by simp
  from 1 2 3 c1 n1 a b c show ?thesis by simp
qed

section \<open>Properties of update\<close>

lemma normalizeUpdateRaw_idem:
  "normalizeUpdateRaw this r = Inr r' \<Longrightarrow> normalizeUpdateRaw this r' = Inr r'"
  by (auto simp: normalizeUpdateRaw_def split: val.splits if_splits sum.splits)

lemma updateEntity_returning:
  assumes "isReturningSqlSupported (driver (queryRunner this)) ''update''"
    and "normalizeUpdateRaw this (raw (updateResult s)) = Inr r'"
  shows "updateEntity this e i s =
     (case returningColumnsAt this r' i of
        None \<Rightarrow> s\<lparr>updateResult := (updateResult s)\<lparr>raw := r'\<rparr>\<rparr>
      | Some rc \<Rightarrow> mergeAndPush e rc (s\<lparr>updateResult := (updateResult s)\<lparr>raw := r'\<rparr>\<rparr>))"
  using assms by (simp add: updateEntity_def Let_def)

lemma updateEntity_returning_fields:
  assumes "isReturningSqlSupported (driver (queryRunner this)) ''update''"
    and "normalizeUpdateRaw this (raw (updateResult s)) = Inr r'"
  shows "raw (updateResult (updateEntity this e i s)) = r'"
    and "generatedMaps (updateResult (updateEntity this e i s))
           = generatedMaps (updateResult s)
             @ (case returningColumnsAt this r' i of None \<Rightarrow> [] | Some rc \<Rightarrow> [rc])"
    and "entityStore (updateEntity this e i s)
           = (case returningColumnsAt this r' i of
                None \<Rightarrow> entityStore s
              | Some rc \<Rightarrow> (entityStore s)(e := merge (entityStore s e) (Some rc)))"
    and "issued (updateEntity this e i s) = issued s"
    and "pending (updateEntity this e i s) = pending s"
    and "rejected (updateEntity this e i s) = rejected s"
  by (simp_all add: updateEntity_returning [OF assms] mergeAndPush_def split: option.split)

lemma upt_plus_Suc: "[k..<k + Suc n] = k # [Suc k..<Suc k + n]"
  by (simp add: upt_conv_Cons)

lemma updateEntities_returning:
  assumes supp: "isReturningSqlSupported (driver (queryRunner this)) ''update''"
  shows "normalizeUpdateRaw this (raw (updateResult s)) = Inr r' \<Longrightarrow>
     generatedMaps (updateResult (updateEntities this es k s))
       = generatedMaps (updateResult s)
         @ List.map_filter (returningColumnsAt this r') [k..<k + length es]
     \<and> entityStore (updateEntities this es k s)
       = fold (\<lambda>(entity, i) h. case returningColumnsAt this r' i of
                  None \<Rightarrow> h
                | Some rc \<Rightarrow> h(entity := merge (h entity) (Some rc)))
           (zip es [k..<k + length es]) (entityStore s)
     \<and> raw (updateResult (updateEntities this es k s))
       = (if es = [] then raw (updateResult s) else r')
     \<and> issued (updateEntities this es k s) = issued s
     \<and> pending (updateEntities this es k s) = pending s
     \<and> rejected (updateEntities this es k s) = rejected s"
proof (induction es arbitrary: k s)
  case Nil
  show ?case by simp
next
  case (Cons e es)
  let ?s1 = "updateEntity this e k s"
  note f = updateEntity_returning_fields [OF supp Cons.prems, of e k]
  have n1: "normalizeUpdateRaw this (raw (updateResult ?s1)) = Inr r'"
    using f(1) normalizeUpdateRaw_idem [OF Cons.prems] by simp
  note ih = Cons.IH [OF n1, of "Suc k"]
  show ?case
    unfolding updateEntities.simps length_Cons upt_plus_Suc [of k "length es"] zip_Cons_Cons fold_simps
    using ih f by (auto split: option.split)
qed



lemma mset_completionOrder: "mset (completionOrder picks ts) = mset ts"
proof (induction picks ts rule: completionOrder.induct)
  case (3 p picks t ts)
  let ?xs = "t # ts"
  let ?i = "p mod length ?xs"
  have i: "?i < length ?xs" by simp
  have "mset ?xs = mset (take ?i ?xs @ ?xs ! ?i # drop (Suc ?i) ?xs)"
    using id_take_nth_drop [OF i] by simp
  also have "\<dots> = add_mset (?xs ! ?i) (mset (take ?i ?xs @ drop (Suc ?i) ?xs))"
    by simp
  finally have eq: "mset ?xs = add_mset (?xs ! ?i) (mset (take ?i ?xs @ drop (Suc ?i) ?xs))" .
  have "mset (completionOrder (p # picks) ?xs)
          = add_mset (?xs ! ?i) (mset (completionOrder picks (take ?i ?xs @ drop (Suc ?i) ?xs)))"
    by (simp add: Let_def del: take_Suc_Cons drop_Suc_Cons nth_Cons_Suc)
  also have "\<dots> = add_mset (?xs ! ?i) (mset (take ?i ?xs @ drop (Suc ?i) ?xs))"
    using "3.IH" [of ?i] by simp
  finally show ?case using eq by simp
qed simp_all

lemma set_completionOrder: "set (completionOrder picks ts) = set ts"
  using mset_completionOrder [of picks ts] by (rule mset_eq_setD)

lemma length_completionOrder: "length (completionOrder picks ts) = length ts"
  using mset_completionOrder [of picks ts] by (rule mset_eq_length)

text \<open>Every order of the pending reads is the completion order of some picks.\<close>

lemma completionOrder_pick:
  assumes "i < length ts"
  shows "completionOrder (i # picks) ts
           = ts ! i # completionOrder picks (take i ts @ drop (Suc i) ts)"
proof (cases ts)
  case Nil
  with assms show ?thesis by simp
next
  case (Cons t ts')
  have "i mod length (t # ts') = i" using assms Cons by simp
  then show ?thesis
    unfolding Cons completionOrder.simps Let_def by simp
qed

lemma completionOrder_any:
  "mset ys = mset ts \<Longrightarrow> \<exists>picks. completionOrder picks ts = ys"
proof (induction ys arbitrary: ts)
  case Nil
  then show ?case by simp
next
  case (Cons y ys)
  then have "y \<in> set ts" by (metis list.set_intros(1) mset_eq_setD)
  then obtain i where i: "i < length ts" and y: "ts ! i = y"
    by (auto simp: in_set_conv_nth)
  let ?rest = "take i ts @ drop (Suc i) ts"
  have "mset ts = add_mset y (mset ?rest)"
    using id_take_nth_drop [OF i] y by (metis mset.simps(2) mset_append union_mset_add_mset_right)
  with Cons.prems have "mset ys = mset ?rest" by simp
  from Cons.IH [OF this] obtain picks where "completionOrder picks ?rest = ys" by blast
  then have "completionOrder (i # picks) ts = y # ys"
    using completionOrder_pick [OF i] y by simp
  then show ?case by blast
qed

lemma updateEntity_rejected_mono:
  "rejected s = Some e \<Longrightarrow> rejected (updateEntity this x i s) = Some e"
  by (simp add: updateEntity_def Let_def reject_def mergeAndPush_def returningColumnsAt_def
      split: sum.split option.split)

lemma updateEntities_rejected_mono:
  "rejected s = Some e \<Longrightarrow> rejected (updateEntities this es k s) = Some e"
  by (induction es arbitrary: k s) (simp_all add: updateEntity_rejected_mono)



lemma updateEntity_loading_fields:
  assumes "\<not> isReturningSqlSupported (driver (queryRunner this)) ''update''"
    and "extraReturningColumns (expressionMap this) \<noteq> []"
  shows "updateResult (updateEntity this e i s) = updateResult s"
    and "entityStore (updateEntity this e i s) = entityStore s"
    and "issued (updateEntity this e i s)
           = issued s
             @ (case getEntityIdMap (metadata (expressionMap this)) (entityStore s e) of
                  None \<Rightarrow> []
                | Some entityId \<Rightarrow> [ReadOne i (loadReturningColumns this entityId)])"
    and "pending (updateEntity this e i s)
           = pending s
             @ (case getEntityIdMap (metadata (expressionMap this)) (entityStore s e) of
                  None \<Rightarrow> []
                | Some entityId \<Rightarrow>
                    [(e, getOne (queryRunner this) (loadReturningColumns this entityId))])"
    and "rejected (updateEntity this e i s)
           = (case rejected s of
                Some x \<Rightarrow> Some x
              | None \<Rightarrow>
                  (case getEntityIdMap (metadata (expressionMap this)) (entityStore s e) of
                     None \<Rightarrow> Some entityIdNotSet
                   | Some entityId \<Rightarrow> None))"
  using assms
  by (simp_all add: updateEntity_def Let_def reject_def split: option.split)

lemma updateEntity_no_columns:
  assumes "\<not> isReturningSqlSupported (driver (queryRunner this)) ''update''"
    and "extraReturningColumns (expressionMap this) = []"
  shows "updateEntity this e i s = s"
  using assms by (simp add: updateEntity_def)

lemma updateEntities_no_columns:
  assumes "\<not> isReturningSqlSupported (driver (queryRunner this)) ''update''"
    and "extraReturningColumns (expressionMap this) = []"
  shows "updateEntities this es k s = s"
  by (induction es arbitrary: k) (simp_all add: updateEntity_no_columns [OF assms])

lemma updateEntities_loading:
  assumes nsupp: "\<not> isReturningSqlSupported (driver (queryRunner this)) ''update''"
    and cols: "extraReturningColumns (expressionMap this) \<noteq> []"
  shows "updateResult (updateEntities this es k s) = updateResult s
     \<and> entityStore (updateEntities this es k s) = entityStore s
     \<and> issued (updateEntities this es k s)
       = issued s
         @ List.map_filter
             (\<lambda>(entity, i). map_option (ReadOne i) (readFor this (entityStore s) entity))
             (zip es [k..<k + length es])
     \<and> pending (updateEntities this es k s)
       = pending s
         @ List.map_filter
             (\<lambda>entity. map_option (\<lambda>q. (entity, getOne (queryRunner this) q))
                          (readFor this (entityStore s) entity))
             es
     \<and> rejected (updateEntities this es k s)
       = (case rejected s of
            Some x \<Rightarrow> Some x
          | None \<Rightarrow>
              (if list_ex (\<lambda>entity. getEntityIdMap (metadata (expressionMap this))
                                      (entityStore s entity) = None) es
               then Some entityIdNotSet else None))"
proof (induction es arbitrary: k s)
  case Nil
  show ?case by (simp split: option.split)
next
  case (Cons e es)
  note f = updateEntity_loading_fields [OF nsupp cols, of e k s]
  note ih = Cons.IH [of "Suc k" "updateEntity this e k s"]
  show ?case
    unfolding updateEntities.simps length_Cons upt_plus_Suc [of k "length es"] zip_Cons_Cons
    using ih f by (auto simp: readFor_def split: option.split)
qed




lemma fold_updateLoaded_fields:
  "generatedMaps (updateResult (fold updateLoaded ts s))
     = generatedMaps (updateResult s) @ List.map_filter snd ts
   \<and> raw (updateResult (fold updateLoaded ts s)) = raw (updateResult s)
   \<and> issued (fold updateLoaded ts s) = issued s
   \<and> entityStore (fold updateLoaded ts s)
     = fold (\<lambda>t h. case snd t of None \<Rightarrow> h
                     | Some row \<Rightarrow> h(fst t := merge (h (fst t)) (Some row)))
         ts (entityStore s)"
proof (induction ts arbitrary: s)
  case Nil
  show ?case by simp
next
  case (Cons t ts)
  have step: "generatedMaps (updateResult (updateLoaded t s))
                = generatedMaps (updateResult s) @ (case snd t of None \<Rightarrow> [] | Some row \<Rightarrow> [row])"
    "raw (updateResult (updateLoaded t s)) = raw (updateResult s)"
    "issued (updateLoaded t s) = issued s"
    "entityStore (updateLoaded t s)
       = (case snd t of None \<Rightarrow> entityStore s
          | Some row \<Rightarrow> (entityStore s)(fst t := merge (entityStore s (fst t)) (Some row)))"
    by (simp_all add: updateLoaded_def mergeAndPush_def split: option.split)
  note ih = Cons.IH [of "updateLoaded t s", unfolded step]
  show ?case
    by (simp add: ih split: option.split)
qed

lemma mset_map_filter_cong:
  "mset xs = mset ys \<Longrightarrow> mset (List.map_filter f xs) = mset (List.map_filter f ys)"
  by (simp add: List.map_filter_def)

lemma map_filter_map: "List.map_filter f (map g xs) = List.map_filter (f \<circ> g) xs"
  by (induction xs) (simp_all split: option.split)

lemma map_filter_append: "List.map_filter f (xs @ ys) = List.map_filter f xs @ List.map_filter f ys"
  by (induction xs) (simp_all split: option.split)

lemma map_filter_map_filter:
  "List.map_filter f (List.map_filter g xs) = List.map_filter (\<lambda>x. Option.bind (g x) f) xs"
  by (induction xs) (simp_all split: option.split)

lemma length_map_filter_le: "length (List.map_filter f xs) \<le> length xs"
  by (induction xs) (simp_all split: option.split)

lemma map_filter_cong_set:
  "(\<And>x. x \<in> set xs \<Longrightarrow> f x = g x) \<Longrightarrow> List.map_filter f xs = List.map_filter g xs"
  by (induction xs) (simp_all split: option.split)

lemma map_filter_nth_upt:
  "List.map_filter f xs = List.map_filter (\<lambda>i. f (xs ! i)) [0..<length xs]"
proof -
  have "List.map_filter f xs = List.map_filter f (map (\<lambda>i. xs ! i) [0..<length xs])"
    by (simp add: map_nth)
  then show ?thesis by (simp add: map_filter_map comp_def)
qed

lemma update_entities_returning:
  assumes supp: "isReturningSqlSupported (driver (queryRunner this)) ''update''"
    and ok: "update_entities this picks res entities h = Inr (res', h', reads)"
  shows "generatedMaps res'
           = generatedMaps res
             @ List.map_filter (returningColumnsAt this (raw res')) [0..<length entities]"
    and "h' = fold (\<lambda>(entity, i) h. case returningColumnsAt this (raw res') i of
                      None \<Rightarrow> h
                    | Some rc \<Rightarrow> h(entity := merge (h entity) (Some rc)))
                (zip entities [0..<length entities]) h"
    and "reads = []"
proof -
  let ?init = "initialUpdateState res h"
  let ?fin = "updateEntities this entities 0 ?init"
  have rej: "rejected ?fin = None"
    using ok by (auto simp: update_entities_def Let_def split: option.splits)
  have "generatedMaps res'
           = generatedMaps res
             @ List.map_filter (returningColumnsAt this (raw res')) [0..<length entities]
        \<and> h' = fold (\<lambda>(entity, i) h. case returningColumnsAt this (raw res') i of
                      None \<Rightarrow> h
                    | Some rc \<Rightarrow> h(entity := merge (h entity) (Some rc)))
                (zip entities [0..<length entities]) h
        \<and> reads = []"
  proof (cases entities)
    case Nil
    with ok show ?thesis
      by (simp add: update_entities_def Let_def initialUpdateState_def)
  next
    case (Cons e es)
    show ?thesis
    proof (cases "normalizeUpdateRaw this (raw res)")
      case (Inl err)
      have "rejected (updateEntity this e 0 ?init) = Some err"
        using supp Inl by (simp add: updateEntity_def initialUpdateState_def reject_def)
      then have "rejected ?fin = Some err"
        unfolding Cons updateEntities.simps by (rule updateEntities_rejected_mono)
      with rej show ?thesis by simp
    next
      case (Inr r')
      then have n: "normalizeUpdateRaw this (raw (updateResult ?init)) = Inr r'"
        by (simp add: initialUpdateState_def)
      note c = updateEntities_returning [OF supp n, of entities 0]
      have p: "pending ?fin = []" using c by (simp add: initialUpdateState_def)
      have res': "res' = updateResult ?fin" and h': "h' = entityStore ?fin" and rd: "reads = issued ?fin"
        using ok rej p by (simp_all add: update_entities_def Let_def)
      have r: "raw res' = r'" using c Cons res' by simp
      show ?thesis
        using c unfolding res' [symmetric] h' [symmetric] rd [symmetric] r
        by (simp add: initialUpdateState_def)
    qed
  qed
  then show "generatedMaps res'
           = generatedMaps res
             @ List.map_filter (returningColumnsAt this (raw res')) [0..<length entities]"
    and "h' = fold (\<lambda>(entity, i) h. case returningColumnsAt this (raw res') i of
                      None \<Rightarrow> h
                    | Some rc \<Rightarrow> h(entity := merge (h entity) (Some rc)))
                (zip entities [0..<length entities]) h"
    and "reads = []" by blast+
qed




lemma update_entities_loading:
  assumes nsupp: "\<not> isReturningSqlSupported (driver (queryRunner this)) ''update''"
    and cols: "extraReturningColumns (expressionMap this) \<noteq> []"
    and ok: "update_entities this picks res entities h = Inr (res', h', reads)"
  shows "list_all (\<lambda>entity. getEntityIdMap (metadata (expressionMap this)) (h entity) \<noteq> None) entities"
    and "raw res' = raw res"
    and "generatedMaps res'
           = generatedMaps res
             @ List.map_filter snd
                 (completionOrder picks
                    (List.map_filter
                       (\<lambda>entity. map_option (\<lambda>q. (entity, getOne (queryRunner this) q))
                                    (readFor this h entity))
                       entities))"
    and "reads = List.map_filter
                   (\<lambda>(entity, i). map_option (ReadOne i) (readFor this h entity))
                   (zip entities [0..<length entities])"
proof -
  let ?init = "initialUpdateState res h"
  let ?fin = "updateEntities this entities 0 ?init"
  note c = updateEntities_loading [OF nsupp cols, of entities 0 ?init]
  have rej: "rejected ?fin = None"
    using ok by (auto simp: update_entities_def Let_def split: option.splits)
  then show "list_all (\<lambda>entity. getEntityIdMap (metadata (expressionMap this)) (h entity) \<noteq> None) entities"
    using c by (simp add: initialUpdateState_def list_all_iff list_ex_iff split: if_splits)
  let ?done = "fold updateLoaded (completionOrder picks (pending ?fin)) ?fin"
  have res': "res' = updateResult ?done" and rd: "reads = issued ?done"
    using ok rej by (simp_all add: update_entities_def Let_def)
  note d = fold_updateLoaded_fields [of "completionOrder picks (pending ?fin)" ?fin]
  show "raw res' = raw res"
    unfolding res' using d c by (simp add: initialUpdateState_def)
  show "generatedMaps res'
           = generatedMaps res
             @ List.map_filter snd
                 (completionOrder picks
                    (List.map_filter
                       (\<lambda>entity. map_option (\<lambda>q. (entity, getOne (queryRunner this) q))
                                    (readFor this h entity))
                       entities))"
    unfolding res' using d c by (simp add: initialUpdateState_def)
  show "reads = List.map_filter
                   (\<lambda>(entity, i). map_option (ReadOne i) (readFor this h entity))
                   (zip entities [0..<length entities])"
    unfolding rd using d c by (simp add: initialUpdateState_def)
qed

lemma update_entities_no_columns:
  assumes nsupp: "\<not> isReturningSqlSupported (driver (queryRunner this)) ''update''"
    and cols: "extraReturningColumns (expressionMap this) = []"
  shows "update_entities this picks res entities h = Inr (res, h, [])"
  by (simp add: update_entities_def updateEntities_no_columns [OF nsupp cols]
      initialUpdateState_def)

lemmas test_defs = testUpdator_def testDriver_def testMetadata_def testColumn_def testIdMap_def

lemmas update_defs = update_entities_def initialUpdateState_def updateEntity_def
  normalizeUpdateRaw_def returningColumnsAt_def rawResult_def loadReturningColumns_def
  reselect_def selectPaths_def reject_def mergeAndPush_def updateLoaded_def entityIdNotSet_def
  agrees_def

text \<open>
  C4, as amended. When \<^verbatim>\<open>update\<close> completes, the ledger is the ledger it was given followed
  by one entry for each position at which something was obtained, and by nothing for the
  other positions: with RETURNING, the generated map the driver extracts from the
  position's raw row; without, the row the supplemental read of the entity finds, when
  there are returning columns at all. So the ledger gains at most one entry for each
  entity, and as many as there are entities only when every position obtains one. With
  RETURNING the new entries are in the order of the entities.
\<close>

theorem update_ledger_one_entry_per_obtained:
  assumes ok: "update_entities this picks res entities h = Inr (res', h', reads)"
  shows "take (length (generatedMaps res)) (generatedMaps res') = generatedMaps res
     \<and> mset (drop (length (generatedMaps res)) (generatedMaps res'))
       = mset (List.map_filter (obtained this (raw res') h entities) [0..<length entities])
     \<and> (isReturningSqlSupported (driver (queryRunner this)) ''update'' \<longrightarrow>
          drop (length (generatedMaps res)) (generatedMaps res')
            = List.map_filter (obtained this (raw res') h entities) [0..<length entities])
     \<and> length (generatedMaps res') \<le> length (generatedMaps res) + length entities"
proof -
  let ?added = "drop (length (generatedMaps res)) (generatedMaps res')"
  let ?want = "List.map_filter (obtained this (raw res') h entities) [0..<length entities]"
  have main: "generatedMaps res' = generatedMaps res @ ?added
      \<and> mset ?added = mset ?want
      \<and> (isReturningSqlSupported (driver (queryRunner this)) ''update'' \<longrightarrow> ?added = ?want)"
  proof (cases "isReturningSqlSupported (driver (queryRunner this)) ''update''")
    case True
    have "obtained this (raw res') h entities = returningColumnsAt this (raw res')"
      using True by (simp add: obtained_def fun_eq_iff)
    then show ?thesis
      using update_entities_returning(1) [OF True ok] by simp
  next
    case nsupp: False
    show ?thesis
    proof (cases "extraReturningColumns (expressionMap this) = []")
      case True
      have "obtained this (raw res') h entities = (\<lambda>i. None)"
        using nsupp True by (simp add: obtained_def fun_eq_iff)
      moreover have "res' = res"
        using ok update_entities_no_columns [OF nsupp True, of picks res entities h] by simp
      ultimately show ?thesis using nsupp by (simp add: List.map_filter_def)
    next
      case False
      let ?pend = "List.map_filter
                       (\<lambda>entity. map_option (\<lambda>q. (entity, getOne (queryRunner this) q))
                                    (readFor this h entity))
                       entities"
      note l = update_entities_loading [OF nsupp False ok]
      have a: "?added = List.map_filter snd (completionOrder picks ?pend)"
        using l(3) by simp
      have "mset (List.map_filter snd (completionOrder picks ?pend)) = mset (List.map_filter snd ?pend)"
        by (rule mset_map_filter_cong) (rule mset_completionOrder)
      also have "List.map_filter snd ?pend
           = List.map_filter
               (\<lambda>entity. case readFor this h entity of None \<Rightarrow> None
                          | Some q \<Rightarrow> getOne (queryRunner this) q) entities"
        unfolding map_filter_map_filter
        by (rule map_filter_cong_set) (simp split: option.split)
      also have "\<dots> = ?want"
        unfolding map_filter_nth_upt [of _ entities]
        using nsupp False by (intro map_filter_cong_set) (simp add: obtained_def)
      finally show ?thesis using a l(3) nsupp by simp
    qed
  qed
  then have "length (generatedMaps res') = length (generatedMaps res) + length ?want"
    by (metis length_append mset_eq_length)
  moreover have "length ?want \<le> length entities"
    using length_map_filter_le [of _ "[0..<length entities]"] by simp
  ultimately show ?thesis using main by (metis append_eq_conv_conj le_add_same_cancel1 add_le_cancel_left)
qed

theorem update_ledger_one_entry_per_obtained_witness:
  "update_entities (testUpdator False [testColumn ''value'' False] None
        [[(''id'', Num 2), (''value'', Str ''b'')]]) [1]
       \<lparr> raw = Undefined, generatedMaps = [] \<rparr> [0, 1]
       ((\<lambda>entity. [(''id'', Num 2)])(0 := [(''id'', Num 1)]))
     = Inr (\<lparr> raw = Undefined, generatedMaps = [[(''id'', Num 2), (''value'', Str ''b'')]] \<rparr>,
            (\<lambda>entity. [(''id'', Num 2)])
              (0 := [(''id'', Num 1)], 1 := [(''id'', Num 2), (''value'', Str ''b'')]),
            [ReadOne 0 (loadReturningColumns
                 (testUpdator False [testColumn ''value'' False] None
                    [[(''id'', Num 2), (''value'', Str ''b'')]]) [(''id'', Num 1)]),
             ReadOne 1 (loadReturningColumns
                 (testUpdator False [testColumn ''value'' False] None
                    [[(''id'', Num 2), (''value'', Str ''b'')]]) [(''id'', Num 2)])])
   \<and> length [[(''id'', Num 2), (''value'', Str ''b'')]] \<le> length ([] :: ObjectLiteral list) + length [0 :: nat, 1]"
proof -
  have ev: "update_entities (testUpdator False [testColumn ''value'' False] None
        [[(''id'', Num 2), (''value'', Str ''b'')]]) [1]
       \<lparr> raw = Undefined, generatedMaps = [] \<rparr> [0, 1]
       ((\<lambda>entity. [(''id'', Num 2)])(0 := [(''id'', Num 1)]))
     = Inr (\<lparr> raw = Undefined, generatedMaps = [[(''id'', Num 2), (''value'', Str ''b'')]] \<rparr>,
            (\<lambda>entity. [(''id'', Num 2)])
              (0 := [(''id'', Num 1)], 1 := [(''id'', Num 2), (''value'', Str ''b'')]),
            [ReadOne 0 (loadReturningColumns
                 (testUpdator False [testColumn ''value'' False] None
                    [[(''id'', Num 2), (''value'', Str ''b'')]]) [(''id'', Num 1)]),
             ReadOne 1 (loadReturningColumns
                 (testUpdator False [testColumn ''value'' False] None
                    [[(''id'', Num 2), (''value'', Str ''b'')]]) [(''id'', Num 2)])])"
    by (simp add: test_defs update_defs)
  from update_ledger_one_entry_per_obtained [OF ev] ev
  show ?thesis by simp
qed

theorem update_ledger_counterexample:
  "update_entities (testUpdator False [] None []) []
       \<lparr> raw = Obj [(''affectedRows'', Num 1)], generatedMaps = [] \<rparr> [0]
       (\<lambda>entity. [(''id'', Num 1)])
     = Inr (\<lparr> raw = Obj [(''affectedRows'', Num 1)], generatedMaps = [] \<rparr>,
            (\<lambda>entity. [(''id'', Num 1)]), [])
   \<and> length [0 :: nat] = 1"
  by (simp add: test_defs update_defs)

text \<open>
  C5. Without RETURNING and with at least one returning column, an entity whose identifier
  \<^verbatim>\<open>getEntityIdMap\<close> cannot compute makes the whole call fail with the error
  \<^verbatim>\<open>Cannot update entity because entity id is not set in the entity.\<close>, whatever the
  other entities are and in whatever order reads complete; and no read is issued for the
  position of that entity.
\<close>

theorem update_rejects_entity_without_id:
  assumes nsupp: "\<not> isReturningSqlSupported (driver (queryRunner this)) ''update''"
    and cols: "extraReturningColumns (expressionMap this) \<noteq> []"
    and i: "i < length entities"
    and noid: "getEntityIdMap (metadata (expressionMap this)) (h (entities ! i)) = None"
  shows "update_entities this picks res entities h = Inl entityIdNotSet
     \<and> ReadOne i q \<notin> set (issued (updateEntities this entities 0 (initialUpdateState res h)))"
proof -
  let ?init = "initialUpdateState res h"
  note c = updateEntities_loading [OF nsupp cols, of entities 0 ?init]
  have "list_ex (\<lambda>entity. getEntityIdMap (metadata (expressionMap this)) (h entity) = None) entities"
    using i noid unfolding list_ex_iff by (metis nth_mem)
  then have "rejected (updateEntities this entities 0 ?init) = Some entityIdNotSet"
    using c by (simp add: initialUpdateState_def)
  then have a: "update_entities this picks res entities h = Inl entityIdNotSet"
    by (simp add: update_entities_def)
  have "ReadOne i q \<notin> set (issued (updateEntities this entities 0 ?init))"
  proof
    assume "ReadOne i q \<in> set (issued (updateEntities this entities 0 ?init))"
    then have "ReadOne i q \<in> set (List.map_filter
             (\<lambda>(entity, j). map_option (ReadOne j) (readFor this h entity))
             (zip entities [0..<length entities]))"
      using c by (simp add: initialUpdateState_def)
    then obtain e j where m: "(e, j) \<in> set (zip entities [0..<length entities])"
      and r: "map_option (ReadOne j) (readFor this h e) = Some (ReadOne i q)"
      by (auto simp: List.map_filter_def)
    from r have "j = i" and "readFor this h e \<noteq> None" by auto
    moreover from m have "e = entities ! j"
      by (auto simp: set_zip)
    ultimately show False using noid by (simp add: readFor_def)
  qed
  with a show ?thesis by simp
qed

theorem update_rejects_entity_without_id_witness:
  "\<not> isReturningSqlSupported (driver (queryRunner (testUpdator False [testColumn ''value'' False] None []))) ''update''
   \<and> extraReturningColumns (expressionMap (testUpdator False [testColumn ''value'' False] None [])) \<noteq> []
   \<and> (1 :: nat) < length [0 :: nat, 1]
   \<and> getEntityIdMap (metadata (expressionMap (testUpdator False [testColumn ''value'' False] None [])))
         (((\<lambda>entity :: nat. [(''value'', Str ''a'')])(0 := [(''id'', Num 1)])) ([0, 1] ! 1)) = None
   \<and> update_entities (testUpdator False [testColumn ''value'' False] None []) []
         \<lparr> raw = Undefined, generatedMaps = [] \<rparr> [0, 1]
         ((\<lambda>entity. [(''value'', Str ''a'')])(0 := [(''id'', Num 1)]))
       = Inl entityIdNotSet"
proof -
  let ?U = "testUpdator False [testColumn ''value'' False] None []"
  let ?h = "(\<lambda>entity :: nat. [(''value'', Str ''a'')])(0 := [(''id'', Num 1)])"
  have 1: "\<not> isReturningSqlSupported (driver (queryRunner ?U)) ''update''"
    by (simp add: test_defs)
  have 2: "extraReturningColumns (expressionMap ?U) \<noteq> []"
    by (simp add: test_defs)
  have 3: "(1 :: nat) < length [0 :: nat, 1]"
    by simp
  have 4: "getEntityIdMap (metadata (expressionMap ?U)) (?h ([0, 1] ! 1)) = None"
    by (simp add: test_defs)
  from update_rejects_entity_without_id
         [where this = ?U and i = 1 and entities = "[0, 1]" and h = ?h and picks = "[]"
            and res = "\<lparr> raw = Undefined, generatedMaps = [] \<rparr>", OF 1 2 3 4]
  have "update_entities ?U [] \<lparr> raw = Undefined, generatedMaps = [] \<rparr> [0, 1] ?h = Inl entityIdNotSet"
    by blast
  with 1 2 3 4 show ?thesis by blast
qed

text \<open>
  C6, as amended. With RETURNING, when \<^verbatim>\<open>update\<close> completes: the generated map extracted
  from the raw row of a position is merged into the entity of that position and appended
  to the ledger exactly when the driver produced a map, be it empty or not; nothing is
  merged or appended for a position where the driver produced none; no read is issued.
\<close>

theorem update_returning_merges_every_extracted_map:
  assumes supp: "isReturningSqlSupported (driver (queryRunner this)) ''update''"
    and ok: "update_entities this picks res entities h = Inr (res', h', reads)"
  shows "generatedMaps res'
           = generatedMaps res
             @ List.map_filter (returningColumnsAt this (raw res')) [0..<length entities]
     \<and> h' = fold (\<lambda>(entity, i) h. case returningColumnsAt this (raw res') i of
                      None \<Rightarrow> h
                    | Some rc \<Rightarrow> h(entity := merge (h entity) (Some rc)))
                (zip entities [0..<length entities]) h
     \<and> reads = []"
  using update_entities_returning [OF supp ok] by (intro conjI)

theorem update_returning_merges_every_extracted_map_witness:
  "isReturningSqlSupported (driver (queryRunner (testUpdator True [] None []))) ''update''
   \<and> update_entities (testUpdator True [] None []) []
       \<lparr> raw = Arr [Obj [(''version'', Num 2)], Undefined], generatedMaps = [] \<rparr> [0, 1]
       (\<lambda>entity. [(''id'', Num 1)])
     = Inr (\<lparr> raw = Arr [Obj [(''version'', Num 2)], Undefined],
               generatedMaps = [[(''version'', Num 2)]] \<rparr>,
            (\<lambda>entity. [(''id'', Num 1)])(0 := [(''id'', Num 1), (''version'', Num 2)]), [])
   \<and> [[(''version'', Num 2)]]
     = [] @ List.map_filter
              (returningColumnsAt (testUpdator True [] None [])
                 (Arr [Obj [(''version'', Num 2)], Undefined]))
              [0..<length [0 :: nat, 1]]"
proof -
  have supp: "isReturningSqlSupported (driver (queryRunner (testUpdator True [] None []))) ''update''"
    by (simp add: test_defs)
  have ev: "update_entities (testUpdator True [] None []) []
       \<lparr> raw = Arr [Obj [(''version'', Num 2)], Undefined], generatedMaps = [] \<rparr> [0, 1]
       (\<lambda>entity. [(''id'', Num 1)])
     = Inr (\<lparr> raw = Arr [Obj [(''version'', Num 2)], Undefined],
               generatedMaps = [[(''version'', Num 2)]] \<rparr>,
            (\<lambda>entity. [(''id'', Num 1)])(0 := [(''id'', Num 1), (''version'', Num 2)]), [])"
    by (simp add: test_defs update_defs)
  from update_returning_merges_every_extracted_map [OF supp ev] supp ev
  show ?thesis by simp
qed

theorem update_returning_counterexample:
  "returningColumnsAt (testUpdator True [] None []) (Obj []) 0 = Some []
   \<and> update_entities (testUpdator True [] None []) []
       \<lparr> raw = Obj [], generatedMaps = [] \<rparr> [0] (\<lambda>entity. [(''id'', Num 1)])
     = Inr (\<lparr> raw = Obj [], generatedMaps = [[]] \<rparr>,
            (\<lambda>entity. [(''id'', Num 1)]), [])"
  by (simp add: test_defs update_defs)

section \<open>Properties of insert\<close>

lemma insertEntity_store:
  "insertEntity this n entity entityIndex st = Inr (r1, h1, g)
     \<Longrightarrow> h1 = (snd st)(entity := merge (snd st entity) (Some g))"
  by (auto simp: insertEntity_def Let_def split: sum.splits)

lemma insertGeneratedMaps_fields:
  "insertGeneratedMaps this n es k st = Inr (r1, h1, gms)
     \<Longrightarrow> length gms = length es
       \<and> h1 = fold (\<lambda>(entity, g) h. h(entity := merge (h entity) (Some g))) (zip es gms) (snd st)"
proof (induction es arbitrary: k st gms)
  case Nil
  then show ?case by auto
next
  case (Cons e es)
  from Cons.prems obtain ra ha g gs where
    a: "insertEntity this n e k st = Inr (ra, ha, g)"
    and b: "insertGeneratedMaps this n es (Suc k) (ra, ha) = Inr (r1, h1, gs)"
    and c: "gms = g # gs"
    by (auto split: sum.splits prod.splits)
  from Cons.IH [OF b] insertEntity_store [OF a] c show ?case by simp
qed

lemma pushResults_fields:
  "identifiers (pushResults md h gms es k res)
     = identifiers res @ map (\<lambda>entity. getEntityIdMap md (h entity)) es
   \<and> generatedMaps (pushResults md h gms es k res)
     = generatedMaps res @ map (\<lambda>i. gms ! i) [k..<k + length es]
   \<and> raw (pushResults md h gms es k res) = raw res"
proof (induction es arbitrary: k res)
  case Nil
  show ?case by simp
next
  case (Cons e es)
  show ?case
    unfolding pushResults.simps length_Cons upt_plus_Suc [of k "length es"]
    using Cons.IH [of "Suc k"] by simp
qed

lemma mergeReturning_length:
  "length (fst (mergeReturning rr es k st)) = length (fst st)"
  by (induction es arbitrary: k st) simp_all

lemma mergeReturning_nth:
  "i < length (fst st) \<Longrightarrow>
   fst (mergeReturning rr es k st) ! i
     = (if k \<le> i \<and> i < k + length es then merge (fst st ! i) (slot rr i) else fst st ! i)"
proof (induction es arbitrary: k st)
  case Nil
  show ?case by auto
next
  case (Cons e es)
  let ?st = "((fst st)[k := merge (fst st ! k) (slot rr k)],
        (snd st)(e := merge (snd st e) (slot rr k)))"
  have "i < length (fst ?st)" using Cons.prems by simp
  from Cons.IH [OF this, of "Suc k"] Cons.prems show ?case
    by (cases "i = k") (auto simp: nth_list_update)
qed

lemma mergeReturning_store:
  "snd (mergeReturning rr es k st)
     = fold (\<lambda>(entity, i) h. h(entity := merge (h entity) (slot rr i)))
         (zip es [k..<k + length es]) (snd st)"
proof (induction es arbitrary: k st)
  case Nil
  show ?case by simp
next
  case (Cons e es)
  show ?case
    unfolding mergeReturning.simps length_Cons upt_plus_Suc [of k "length es"]
    using Cons.IH [of "Suc k"] by simp
qed

lemma mergeReturning_ledger:
  assumes "length gms = length es"
  shows "fst (mergeReturning rr es 0 (gms, h))
           = map (\<lambda>i. merge (gms ! i) (slot rr i)) [0..<length es]"
proof (rule nth_equalityI)
  show "length (fst (mergeReturning rr es 0 (gms, h)))
          = length (map (\<lambda>i. merge (gms ! i) (slot rr i)) [0..<length es])"
    using assms by (simp add: mergeReturning_length)
next
  fix i
  assume "i < length (fst (mergeReturning rr es 0 (gms, h)))"
  then have i: "i < length es" using assms by (simp add: mergeReturning_length)
  then show "fst (mergeReturning rr es 0 (gms, h)) ! i
          = map (\<lambda>i. merge (gms ! i) (slot rr i)) [0..<length es] ! i"
    using assms mergeReturning_nth [of i "(gms, h)" rr es 0] by simp
qed

lemma zip_upt: "zip es [0..<length es] = map (\<lambda>i. (es ! i, i)) [0..<length es]"
  by (rule nth_equalityI) simp_all

lemma map_filter_filter:
  "List.map_filter f (filter P xs) = List.map_filter (\<lambda>x. if P x then f x else None) xs"
  by (induction xs) (simp_all split: option.split)

lemma conflictReads_upt:
  "conflictReads this h cc (conflictBasedEntities md h es)
     = List.map_filter
         (\<lambda>i. if getEntityIdMap md (h (es ! i)) = None
              then map_option (Pair i) (conflictRead this cc (h (es ! i))) else None)
         [0..<length es]"
  unfolding conflictReads_def conflictBasedEntities_def zip_upt map_filter_filter map_filter_map
  by (intro map_filter_cong_set) simp

lemma map_fst_map_filter_index:
  assumes "\<And>i y. f i = Some y \<Longrightarrow> fst y = i"
  shows "map fst (List.map_filter f xs) = filter (\<lambda>i. f i \<noteq> None) xs"
  using assms by (induction xs) (auto split: option.split)

lemma conflictReads_distinct:
  "distinct (map fst (conflictReads this h cc (conflictBasedEntities md h es)))"
  unfolding conflictReads_upt
  by (subst map_fst_map_filter_index) (auto split: if_splits)

lemma conflictReads_member:
  "(i, q) \<in> set (conflictReads this h cc (conflictBasedEntities md h es))
     \<longleftrightarrow> i < length es \<and> getEntityIdMap md (h (es ! i)) = None
         \<and> conflictRead this cc (h (es ! i)) = Some q"
  unfolding conflictReads_upt by (force simp: List.map_filter_def split: if_splits)

lemma recordConflictResult_length:
  "length (fold recordConflictResult ts rr) = length rr"
  by (induction ts arbitrary: rr) (simp_all add: recordConflictResult_def split: option.split)

lemma fold_recordConflictResult_nth:
  assumes "distinct (map fst ts)" and "i < length rr"
  shows "fold recordConflictResult ts rr ! i
           = (case map_of ts i of Some (Some row) \<Rightarrow> Some row | _ \<Rightarrow> rr ! i)"
  using assms
proof (induction ts arbitrary: rr)
  case Nil
  show ?case by simp
next
  case (Cons t ts)
  have d: "distinct (map fst ts)" and nt: "fst t \<notin> fst ` set ts"
    using Cons.prems(1) by auto
  have len: "i < length (recordConflictResult t rr)"
    using Cons.prems(2) by (simp add: recordConflictResult_def split: option.split)
  have none: "i = fst t \<Longrightarrow> map_of ts i = None"
    using nt by (simp add: map_of_eq_None_iff)
  have step: "recordConflictResult t rr ! i
        = (if i = fst t then (case snd t of None \<Rightarrow> rr ! i | Some row \<Rightarrow> Some row) else rr ! i)"
    using Cons.prems(2) by (simp add: recordConflictResult_def split: option.split)
  show ?case
    unfolding fold_simps Cons.IH [OF d len] step
    using none by (cases t) (auto split: option.split)
qed

lemma fold_recordConflictResult_perm:
  assumes "distinct (map fst ts)" and "mset ts' = mset ts"
  shows "fold recordConflictResult ts' rr = fold recordConflictResult ts rr"
proof (rule nth_equalityI)
  show "length (fold recordConflictResult ts' rr) = length (fold recordConflictResult ts rr)"
    by (simp add: recordConflictResult_length)
next
  fix i
  assume "i < length (fold recordConflictResult ts' rr)"
  then have i: "i < length rr" by (simp add: recordConflictResult_length)
  have "mset (map fst ts') = mset (map fst ts)"
    using assms(2) by (metis mset_map)
  then have d': "distinct (map fst ts')"
    using assms(1) by (metis mset_eq_imp_distinct_iff)
  have "set ts' = set ts" using assms(2) by (rule mset_eq_setD)
  then have "map_of ts' = map_of ts"
    using assms(1) d' by (simp add: map_of_inject_set)
  then show "fold recordConflictResult ts' rr ! i = fold recordConflictResult ts rr ! i"
    by (simp add: fold_recordConflictResult_nth [OF d' i] fold_recordConflictResult_nth [OF assms(1) i])
qed

lemma mapResultsBack_length:
  "length (mapResultsBack md h rows es k ri rr) = length rr"
  by (induction es arbitrary: k ri rr) (simp_all split: option.split)

lemma mapResultsBack_untouched:
  assumes "i < k \<or> k + length es \<le> i \<or> getEntityIdMap md (h (es ! (i - k))) = None"
  shows "mapResultsBack md h rows es k ri rr ! i = rr ! i"
  using assms
proof (induction es arbitrary: k ri rr)
  case Nil
  show ?case by simp
next
  case (Cons e es)
  have next_ok: "i < Suc k \<or> Suc k + length es \<le> i \<or> getEntityIdMap md (h (es ! (i - Suc k))) = None"
    if "i \<noteq> k"
  proof (cases "i < k")
    case True
    then show ?thesis by simp
  next
    case False
    with that have "i - k = Suc (i - Suc k)" by simp
    then have "(e # es) ! (i - k) = es ! (i - Suc k)" by simp
    with Cons.prems False show ?thesis by auto
  qed
  show ?case
  proof (cases "i = k")
    case True
    then have noid: "getEntityIdMap md (h e) = None" using Cons.prems by auto
    have "mapResultsBack md h rows (e # es) k ri rr ! i = mapResultsBack md h rows es (Suc k) ri rr ! i"
      using noid by simp
    also have "\<dots> = rr ! i"
      by (rule Cons.IH) (simp add: True)
    finally show ?thesis .
  next
    case False
    note ih = Cons.IH [OF next_ok [OF False]]
    show ?thesis
      using False ih by (auto split: option.split)
  qed
qed

lemma conflictReads_map_of:
  "map_of (conflictReads this h cc (conflictBasedEntities md h es)) i
     = (if i < length es \<and> getEntityIdMap md (h (es ! i)) = None
        then conflictRead this cc (h (es ! i)) else None)"
proof (cases "map_of (conflictReads this h cc (conflictBasedEntities md h es)) i")
  case None
  then have "\<And>q. (i, q) \<notin> set (conflictReads this h cc (conflictBasedEntities md h es))"
    by (metis map_of_SomeD weak_map_of_SomeI option.distinct(1))
  then show ?thesis
    using None conflictReads_member [of i _ this h cc md es]
    by (cases "conflictRead this cc (h (es ! i))") auto
next
  case (Some q)
  then have "(i, q) \<in> set (conflictReads this h cc (conflictBasedEntities md h es))"
    by (rule map_of_SomeD)
  then show ?thesis
    using Some conflictReads_member [of i q this h cc md es] by simp
qed

lemma filter_fst_distinct:
  "distinct (map fst xs) \<Longrightarrow>
   filter (\<lambda>x. fst x = i) xs = (case map_of xs i of None \<Rightarrow> [] | Some q \<Rightarrow> [(i, q)])"
proof (induction xs)
  case Nil
  show ?case by simp
next
  case (Cons x xs)
  then have ih: "filter (\<lambda>x. fst x = i) xs = (case map_of xs i of None \<Rightarrow> [] | Some q \<Rightarrow> [(i, q)])"
    and nx: "fst x \<notin> fst ` set xs" by auto
  show ?case
  proof (cases "fst x = i")
    case True
    then have "map_of xs i = None" using nx by (simp add: map_of_eq_None_iff)
    with True ih show ?thesis by (cases x) simp
  next
    case False
    with ih show ?thesis by (cases x) auto
  qed
qed

lemma readsOfPosition_ReadOne:
  "readsOfPosition i (map (\<lambda>(index, q). ReadOne index q) xs)
     = map (\<lambda>(index, q). ReadOne index q) (filter (\<lambda>x. fst x = i) xs)"
  by (induction xs) (auto simp: readsOfPosition_def)

lemma readsOfPosition_append:
  "readsOfPosition i (xs @ ys) = readsOfPosition i xs @ readsOfPosition i ys"
  by (simp add: readsOfPosition_def)

lemma batchedReads_ReadOne:
  "batchedReads (map (\<lambda>(index, q). ReadOne index q) xs) = []"
  by (induction xs) (auto simp: batchedReads_def)

lemma batchedReads_append:
  "batchedReads (xs @ ys) = batchedReads xs @ batchedReads ys"
  by (simp add: batchedReads_def)

text \<open>The reads for conflict-based entities, whether or not there are any.\<close>

lemma returningResults_unfold:
  "returningResults this picks entities h =
     (let md = metadata (expressionMap this);
          reads = (if getConflictColumns this \<noteq> []
                   then conflictReads this h (getConflictColumns this)
                          (conflictBasedEntities md h entities)
                   else []);
          rr1 = fold recordConflictResult
                  (completionOrder picks
                     (map (\<lambda>(index, q). (index, getOne (queryRunner this) q)) reads))
                  (replicate (length entities) None);
          issuedReads = map (\<lambda>(index, q). ReadOne index q) reads
      in if insertionColumns this \<noteq> [] \<and> entityIds md h entities \<noteq> [] then
           (mapResultsBack md h
              (getMany (queryRunner this)
                 (reselect md (insertionColumns this) (WhereArray (entityIds md h entities)) False))
              entities 0 0 rr1,
            issuedReads
            @ [ReadMany (reselect md (insertionColumns this)
                           (WhereArray (entityIds md h entities)) False)])
         else (rr1, issuedReads))"
proof -
  have "conflictBasedEntities (metadata (expressionMap this)) h entities = [] \<Longrightarrow>
        conflictReads this h cc (conflictBasedEntities (metadata (expressionMap this)) h entities) = []"
    for cc by (simp add: conflictReads_def)
  then show ?thesis
    by (auto simp: returningResults_def Let_def)
qed

lemma distinct_pending:
  "distinct (map fst xs) \<Longrightarrow> distinct (map fst (map (\<lambda>(index, q). (index, f q)) xs))"
  by (simp add: comp_def case_prod_unfold)

lemma map_of_pending:
  "map_of (map (\<lambda>(index, q). (index, f q)) xs) i = map_option f (map_of xs i)"
  by (induction xs) auto

lemma conflict_fold_order:
  assumes "distinct (map fst xs)"
  shows "fold recordConflictResult (completionOrder picks (map (\<lambda>(index, q). (index, f q)) xs)) rr
           = fold recordConflictResult (map (\<lambda>(index, q). (index, f q)) xs) rr"
  by (rule fold_recordConflictResult_perm [OF distinct_pending [OF assms] mset_completionOrder])

lemma conflict_fold_nth:
  assumes "distinct (map fst xs)" and "i < length rr"
  shows "fold recordConflictResult (completionOrder picks (map (\<lambda>(index, q). (index, f q)) xs)) rr ! i
           = (case map_of xs i of
                None \<Rightarrow> rr ! i
              | Some q \<Rightarrow> (case f q of None \<Rightarrow> rr ! i | Some row \<Rightarrow> Some row))"
  unfolding conflict_fold_order [OF assms(1)]
    fold_recordConflictResult_nth [OF distinct_pending [OF assms(1)] assms(2)] map_of_pending
  by (simp split: option.split)

lemma returningResults_order:
  "returningResults this picks entities h = returningResults this picks' entities h"
proof -
  have d: "distinct (map fst (if getConflictColumns this \<noteq> []
                   then conflictReads this h (getConflictColumns this)
                          (conflictBasedEntities (metadata (expressionMap this)) h entities)
                   else []))"
    by (simp add: conflictReads_distinct)
  show ?thesis
    unfolding returningResults_unfold Let_def
      conflict_fold_order [OF d, of picks] conflict_fold_order [OF d, of picks'] ..
qed

lemma returningResults_length:
  "length (fst (returningResults this picks entities h)) = length entities"
  by (simp add: returningResults_unfold Let_def mapResultsBack_length recordConflictResult_length)

lemma returningResults_conflict_slot:
  assumes i: "i < length entities"
    and noid: "getEntityIdMap (metadata (expressionMap this)) (h (entities ! i)) = None"
  shows "slot (fst (returningResults this picks entities h)) i
           = (if getConflictColumns this \<noteq> [] then
                (case conflictRead this (getConflictColumns this) (h (entities ! i)) of
                   None \<Rightarrow> None
                 | Some q \<Rightarrow> getOne (queryRunner this) q)
              else None)"
proof -
  let ?md = "metadata (expressionMap this)"
  let ?reads = "if getConflictColumns this \<noteq> []
                   then conflictReads this h (getConflictColumns this)
                          (conflictBasedEntities ?md h entities)
                   else []"
  let ?rr1 = "fold recordConflictResult
                  (completionOrder picks
                     (map (\<lambda>(index, q). (index, getOne (queryRunner this) q)) ?reads))
                  (replicate (length entities) None)"
  have d: "distinct (map fst ?reads)" by (simp add: conflictReads_distinct)
  have i': "i < length (replicate (length entities) (None :: ObjectLiteral option))" using i by simp
  have rr1: "?rr1 ! i
       = (if getConflictColumns this \<noteq> [] then
                (case conflictRead this (getConflictColumns this) (h (entities ! i)) of
                   None \<Rightarrow> None
                 | Some q \<Rightarrow> getOne (queryRunner this) q)
              else None)"
    unfolding conflict_fold_nth [OF d i']
    using i noid by (simp add: conflictReads_map_of split: option.split)
  have untouched: "mapResultsBack ?md h rows entities 0 0 ?rr1 ! i = ?rr1 ! i" for rows
    by (rule mapResultsBack_untouched) (simp add: noid)
  have "fst (returningResults this picks entities h) ! i = ?rr1 ! i"
    unfolding returningResults_unfold Let_def using untouched by simp
  then show ?thesis
    using i rr1 by (simp add: slot_def returningResults_length)
qed

lemma returningResults_readsOfPosition:
  "readsOfPosition i (snd (returningResults this picks entities h))
     = (if getConflictColumns this \<noteq> [] \<and> i < length entities
           \<and> getEntityIdMap (metadata (expressionMap this)) (h (entities ! i)) = None then
          (case conflictRead this (getConflictColumns this) (h (entities ! i)) of
             None \<Rightarrow> []
           | Some q \<Rightarrow> [ReadOne i q])
        else [])"
proof -
  let ?md = "metadata (expressionMap this)"
  let ?reads = "if getConflictColumns this \<noteq> []
                   then conflictReads this h (getConflictColumns this)
                          (conflictBasedEntities ?md h entities)
                   else []"
  have d: "distinct (map fst ?reads)" by (simp add: conflictReads_distinct)
  have "readsOfPosition i (snd (returningResults this picks entities h))
          = map (\<lambda>(index, q). ReadOne index q) (filter (\<lambda>x. fst x = i) ?reads)"
    unfolding returningResults_unfold Let_def
    by (simp add: readsOfPosition_append readsOfPosition_ReadOne)
       (simp add: readsOfPosition_def)
  also have "\<dots> = (if getConflictColumns this \<noteq> [] \<and> i < length entities
           \<and> getEntityIdMap ?md (h (entities ! i)) = None then
          (case conflictRead this (getConflictColumns this) (h (entities ! i)) of
             None \<Rightarrow> []
           | Some q \<Rightarrow> [ReadOne i q])
        else [])"
    unfolding filter_fst_distinct [OF d]
    by (simp add: conflictReads_map_of split: option.split)
  finally show ?thesis .
qed

lemma returningResults_batchedReads:
  "batchedReads (snd (returningResults this picks entities h))
     = (if insertionColumns this \<noteq> []
           \<and> entityIds (metadata (expressionMap this)) h entities \<noteq> [] then
          [ReadMany (reselect (metadata (expressionMap this)) (insertionColumns this)
                       (WhereArray (entityIds (metadata (expressionMap this)) h entities)) False)]
        else [])"
  unfolding returningResults_unfold Let_def
  by (simp add: batchedReads_append batchedReads_ReadOne) (simp add: batchedReads_def)

lemma insertGeneratedMaps_nth:
  "insertGeneratedMaps this n es k st = Inr (r1, h1, gms) \<Longrightarrow> j < length es
     \<Longrightarrow> \<exists>st' r' h'. insertEntity this n (es ! j) (k + j) st' = Inr (r', h', gms ! j)"
proof (induction es arbitrary: k st gms j)
  case Nil
  then show ?case by simp
next
  case (Cons e es)
  from Cons.prems(1) obtain ra ha g gs where
    a: "insertEntity this n e k st = Inr (ra, ha, g)"
    and b: "insertGeneratedMaps this n es (Suc k) (ra, ha) = Inr (r1, h1, gs)"
    and c: "gms = g # gs"
    by (auto split: sum.splits prod.splits)
  show ?case
  proof (cases j)
    case 0
    with a c have "insertEntity this n ((e # es) ! j) (k + j) st = Inr (ra, ha, gms ! j)"
      by simp
    then show ?thesis by blast
  next
    case (Suc j')
    with Cons.prems(2) have "j' < length es" by simp
    from Cons.IH [OF b this] Suc c show ?thesis by simp
  qed
qed

lemma insert_entities_fields:
  assumes map1: "insertGeneratedMaps this (length entities) entities 0 (raw res, h) = Inr (r1, h1, gms1)"
  shows "\<exists>res' h' reads.
      insert_entities this picks res entities h = Inr (res', h', reads)
      \<and> raw res' = r1
      \<and> identifiers res'
          = identifiers res
            @ map (\<lambda>entity. getEntityIdMap (metadata (expressionMap this)) (h' entity)) entities
      \<and> generatedMaps res'
          = generatedMaps res
            @ map (\<lambda>i. merge (gms1 ! i)
                         (if isReturningSqlSupported (driver (queryRunner this)) ''insert''
                          then None
                          else slot (fst (returningResults this picks entities h1)) i))
                [0..<length entities]
      \<and> h' = (if isReturningSqlSupported (driver (queryRunner this)) ''insert'' then h1
              else fold (\<lambda>(entity, i) h.
                           h(entity := merge (h entity)
                                         (slot (fst (returningResults this picks entities h1)) i)))
                     (zip entities [0..<length entities]) h1)
      \<and> reads = (if isReturningSqlSupported (driver (queryRunner this)) ''insert'' then []
                 else snd (returningResults this picks entities h1))"
proof -
  have len: "length gms1 = length entities"
    using insertGeneratedMaps_fields [OF map1] by simp
  show ?thesis
  proof (cases "isReturningSqlSupported (driver (queryRunner this)) ''insert''")
    case True
    have "map (\<lambda>i. gms1 ! i) [0..<length entities] = gms1"
      using len map_nth [of gms1] by simp
    then show ?thesis
      using True map1 pushResults_fields [of "metadata (expressionMap this)" h1 gms1 entities 0]
      by (simp add: insert_entities_def)
  next
    case False
    let ?rr = "fst (returningResults this picks entities h1)"
    let ?st = "mergeReturning ?rr entities 0 (gms1, h1)"
    have led: "fst ?st = map (\<lambda>i. merge (gms1 ! i) (slot ?rr i)) [0..<length entities]"
      by (rule mergeReturning_ledger [OF len])
    have "map (\<lambda>i. fst ?st ! i) [0..<length entities] = fst ?st"
      using map_nth [of "fst ?st"] by (simp add: mergeReturning_length len)
    then have "map (\<lambda>i. fst ?st ! i) [0..<length entities]
                 = map (\<lambda>i. merge (gms1 ! i) (slot ?rr i)) [0..<length entities]"
      using led by simp
    then show ?thesis
      using False map1
        pushResults_fields [of "metadata (expressionMap this)" "snd ?st" "fst ?st" entities 0]
        mergeReturning_store [of ?rr entities 0 "(gms1, h1)"]
      by (simp add: insert_entities_def Let_def)
  qed
qed

lemma insert_entities_Inr_map1:
  assumes "insert_entities this picks res entities h = Inr (res', h', reads)"
  shows "\<exists>r1 h1 gms1. insertGeneratedMaps this (length entities) entities 0 (raw res, h) = Inr (r1, h1, gms1)"
  using assms by (auto simp: insert_entities_def split: sum.splits)

lemma insert_entities_order:
  "insert_entities this picks res entities h = insert_entities this picks' res entities h"
  unfolding insert_entities_def returningResults_order [of this picks _ _ picks'] ..

lemmas insert_defs = insert_entities_def insertEntity_def normalizeInsertRaw_def
  returningResults_def entityIds_def conflictBasedEntities_def conflictReads_def conflictRead_def
  insertionColumns_def getConflictColumns_def conflictsOf_def recordConflictResult_def slot_def
  rowAt_def reselect_def selectPaths_def rawResult_def property_def agrees_def

text \<open>
  What the last \<^verbatim>\<open>forEach\<close> of \<^verbatim>\<open>insert\<close> appends: one identifier and one generated map
  for each entity, the identifier read off the entity as the call leaves it, the
  generated map being the one of the position. The outcome is the same for every order in
  which the conflict reads complete.
\<close>

lemma insert_appends_one_entry_per_entity:
  assumes ok: "insert_entities this picks res entities h = Inr (res', h', reads)"
  shows "identifiers res'
           = identifiers res
             @ map (\<lambda>entity. getEntityIdMap (metadata (expressionMap this)) (h' entity)) entities
     \<and> (\<exists>r1 h1 gms1.
           insertGeneratedMaps this (length entities) entities 0 (raw res, h) = Inr (r1, h1, gms1)
           \<and> length gms1 = length entities
           \<and> (\<forall>i < length entities. \<exists>st r h2.
                 insertEntity this (length entities) (entities ! i) i st = Inr (r, h2, gms1 ! i))
           \<and> generatedMaps res'
               = generatedMaps res
                 @ map (\<lambda>i. merge (gms1 ! i)
                              (if isReturningSqlSupported (driver (queryRunner this)) ''insert''
                               then None
                               else slot (fst (returningResults this picks entities h1)) i))
                     [0..<length entities])
     \<and> length (identifiers res') = length (identifiers res) + length entities
     \<and> length (generatedMaps res') = length (generatedMaps res) + length entities
     \<and> (identifiers res = [] \<and> generatedMaps res = [] \<longrightarrow>
          length (identifiers res') = length entities
          \<and> length (generatedMaps res') = length entities)
     \<and> insert_entities this picks' res entities h = Inr (res', h', reads)"
proof -
  from insert_entities_Inr_map1 [OF ok] obtain r1 h1 gms1 where
    map1: "insertGeneratedMaps this (length entities) entities 0 (raw res, h) = Inr (r1, h1, gms1)"
    by blast
  from insert_entities_fields [OF map1, of picks] ok have
    ids: "identifiers res'
           = identifiers res
             @ map (\<lambda>entity. getEntityIdMap (metadata (expressionMap this)) (h' entity)) entities"
    and led: "generatedMaps res'
               = generatedMaps res
                 @ map (\<lambda>i. merge (gms1 ! i)
                              (if isReturningSqlSupported (driver (queryRunner this)) ''insert''
                               then None
                               else slot (fst (returningResults this picks entities h1)) i))
                     [0..<length entities]"
    by auto
  have len: "length gms1 = length entities"
    using insertGeneratedMaps_fields [OF map1] by simp
  have nth: "\<forall>i < length entities. \<exists>st r h2.
                 insertEntity this (length entities) (entities ! i) i st = Inr (r, h2, gms1 ! i)"
    using insertGeneratedMaps_nth [OF map1] by simp
  have ord: "insert_entities this picks' res entities h = Inr (res', h', reads)"
    using ok insert_entities_order [of this picks res entities h picks'] by simp
  have l1: "length (identifiers res') = length (identifiers res) + length entities"
    unfolding ids by simp
  have l2: "length (generatedMaps res') = length (generatedMaps res) + length entities"
    unfolding led by simp
  have ex: "\<exists>r1 h1 gms1.
           insertGeneratedMaps this (length entities) entities 0 (raw res, h) = Inr (r1, h1, gms1)
           \<and> length gms1 = length entities
           \<and> (\<forall>i < length entities. \<exists>st r h2.
                 insertEntity this (length entities) (entities ! i) i st = Inr (r, h2, gms1 ! i))
           \<and> generatedMaps res'
               = generatedMaps res
                 @ map (\<lambda>i. merge (gms1 ! i)
                              (if isReturningSqlSupported (driver (queryRunner this)) ''insert''
                               then None
                               else slot (fst (returningResults this picks entities h1)) i))
                     [0..<length entities]"
    using map1 len nth led by blast
  have fresh: "identifiers res = [] \<and> generatedMaps res = [] \<longrightarrow>
          length (identifiers res') = length entities
          \<and> length (generatedMaps res') = length entities"
    using l1 l2 by simp
  show ?thesis
    by (intro conjI ids ex l1 l2 fresh ord)
qed

lemma keys_assign: "keys (assign k v d) = insert k (keys d)"
  by (induction d) (auto simp: keys_def)

lemma set_assign_cases:
  "p \<in> set (assign k v d) \<Longrightarrow> p = (k, v) \<or> p \<in> set d"
  by (induction d) (auto split: if_splits)

lemma buildWhereCondition_keys:
  "keys (buildWhereCondition cc e w)
     = keys w \<union> propertyPath ` set (filter (\<lambda>column. getEntityValue column e \<noteq> Undefined
                                                \<and> getEntityValue column e \<noteq> Null) cc)"
  by (induction cc arbitrary: w) (auto simp: Let_def keys_assign)

lemma buildWhereCondition_values:
  "p \<in> set (buildWhereCondition cc e w) \<Longrightarrow>
     p \<in> set w \<or> (snd p \<noteq> Undefined \<and> snd p \<noteq> Null
                    \<and> (\<exists>column \<in> set cc. propertyPath column = fst p
                                           \<and> getEntityValue column e = snd p))"
proof (induction cc arbitrary: w)
  case Nil
  then show ?case by simp
next
  case (Cons c cc)
  show ?case
  proof (cases "getEntityValue c e \<noteq> Undefined \<and> getEntityValue c e \<noteq> Null")
    case True
    with Cons.prems have "p \<in> set (buildWhereCondition cc e (assign (propertyPath c) (getEntityValue c e) w))"
      by (simp add: Let_def)
    from Cons.IH [OF this] show ?thesis
      using True set_assign_cases [of p "propertyPath c" "getEntityValue c e" w] by auto
  next
    case False
    with Cons.prems have "p \<in> set (buildWhereCondition cc e w)"
      by (auto simp: Let_def)
    from Cons.IH [OF this] show ?thesis by auto
  qed
qed

lemma fold_merge_slots_untouched:
  assumes "\<And>j. j < length es \<Longrightarrow> es ! j = e \<Longrightarrow> slot rr (k + j) = None"
  shows "fold (\<lambda>(entity, i) h. h(entity := merge (h entity) (slot rr i)))
           (zip es [k..<k + length es]) h e = h e"
  using assms
proof (induction es arbitrary: k h)
  case Nil
  show ?case by simp
next
  case (Cons x es)
  have rest: "\<And>j. j < length es \<Longrightarrow> es ! j = e \<Longrightarrow> slot rr (Suc k + j) = None"
    using Cons.prems [of "Suc j" for j] by simp
  have first: "x = e \<Longrightarrow> slot rr k = None"
    using Cons.prems [of 0] by simp
  let ?F = "\<lambda>(entity, i) h. h(entity := merge (h entity) (slot rr i))"
  have "fold ?F (zip (x # es) [k..<k + length (x # es)]) h e
          = fold ?F (zip es [Suc k..<Suc k + length es]) (h(x := merge (h x) (slot rr k))) e"
    unfolding length_Cons upt_plus_Suc [of k "length es"] zip_Cons_Cons fold_simps
    by simp
  also have "\<dots> = (h(x := merge (h x) (slot rr k))) e"
    by (rule Cons.IH [OF rest])
  also have "\<dots> = h e"
    using first by simp
  finally show ?case .
qed

lemma conflictRead_eq:
  "conflictRead this cc e
     = (if buildWhereCondition cc e [] = [] then None
        else Some (reselect (metadata (expressionMap this)) (insertionColumns this)
                     (WhereObject (buildWhereCondition cc e [])) False))"
  by (simp add: conflictRead_def Let_def)

text \<open>
  C3. Without RETURNING and with conflict columns resolved, take an entity whose identifier
  \<^verbatim>\<open>getEntityIdMap\<close> cannot compute after the first pass. Its \<^verbatim>\<open>whereCondition\<close> has
  exactly the property paths of the conflict columns whose value in the entity is neither
  \<^verbatim>\<open>undefined\<close> nor \<^verbatim>\<open>null\<close>, each with such a value of such a column. When the
  condition has a key, exactly one read is issued for the position, filtered by the
  condition, and what it finds is the entry of \<^verbatim>\<open>returningResult\<close> at the position and is
  merged into the generated map of the position. When it has no key, no read is issued
  for the position, nothing is recorded there, the entity and its generated map stay as
  they were and the identifier pushed for it is \<^verbatim>\<open>undefined\<close>. In both cases \<^verbatim>\<open>insert\<close>
  returns without an error.
\<close>

theorem insert_recovers_conflict_based_entity:
  assumes nsupp: "\<not> isReturningSqlSupported (driver (queryRunner this)) ''insert''"
    and cc: "getConflictColumns this \<noteq> []"
    and map1: "insertGeneratedMaps this (length entities) entities 0 (raw res, h) = Inr (r1, h1, gms1)"
    and i: "i < length entities"
    and noid: "getEntityIdMap (metadata (expressionMap this)) (h1 (entities ! i)) = None"
    and w: "w = buildWhereCondition (getConflictColumns this) (h1 (entities ! i)) []"
    and q: "q = reselect (metadata (expressionMap this)) (insertionColumns this) (WhereObject w) False"
  shows "keys w
           = propertyPath `
               set (filter (\<lambda>column. getEntityValue column (h1 (entities ! i)) \<noteq> Undefined
                                     \<and> getEntityValue column (h1 (entities ! i)) \<noteq> Null)
                      (getConflictColumns this))
     \<and> list_all (\<lambda>p. snd p \<noteq> Undefined \<and> snd p \<noteq> Null
                       \<and> (\<exists>column \<in> set (getConflictColumns this).
                             propertyPath column = fst p
                             \<and> getEntityValue column (h1 (entities ! i)) = snd p)) w
     \<and> (\<exists>res' h' reads.
           insert_entities this picks res entities h = Inr (res', h', reads)
           \<and> (if w = [] then
                 readsOfPosition i reads = []
                 \<and> slot (fst (returningResults this picks entities h1)) i = None
                 \<and> generatedMaps res' ! (length (generatedMaps res) + i) = gms1 ! i
                 \<and> h' (entities ! i) = h1 (entities ! i)
                 \<and> identifiers res' ! (length (identifiers res) + i) = None
               else
                 readsOfPosition i reads = [ReadOne i q]
                 \<and> slot (fst (returningResults this picks entities h1)) i
                     = getOne (queryRunner this) q
                 \<and> generatedMaps res' ! (length (generatedMaps res) + i)
                     = merge (gms1 ! i) (getOne (queryRunner this) q)))"
proof -
  let ?md = "metadata (expressionMap this)"
  let ?e = "h1 (entities ! i)"
  let ?rr = "fst (returningResults this picks entities h1)"
  have k: "keys w
           = propertyPath `
               set (filter (\<lambda>column. getEntityValue column ?e \<noteq> Undefined
                                     \<and> getEntityValue column ?e \<noteq> Null)
                      (getConflictColumns this))"
    unfolding w buildWhereCondition_keys by (simp add: keys_def)
  have v: "list_all (\<lambda>p. snd p \<noteq> Undefined \<and> snd p \<noteq> Null
                       \<and> (\<exists>column \<in> set (getConflictColumns this).
                             propertyPath column = fst p
                             \<and> getEntityValue column ?e = snd p)) w"
    unfolding w list_all_iff
    using buildWhereCondition_values [of _ "getConflictColumns this" ?e "[]"] by auto
  have cr: "conflictRead this (getConflictColumns this) ?e = (if w = [] then None else Some q)"
    unfolding conflictRead_eq w q by simp
  from insert_entities_fields [OF map1, of picks] nsupp obtain res' h' reads where
    ok: "insert_entities this picks res entities h = Inr (res', h', reads)"
    and ids: "identifiers res'
          = identifiers res @ map (\<lambda>entity. getEntityIdMap ?md (h' entity)) entities"
    and led: "generatedMaps res'
          = generatedMaps res @ map (\<lambda>i. merge (gms1 ! i) (slot ?rr i)) [0..<length entities]"
    and h': "h' = fold (\<lambda>(entity, i) h. h(entity := merge (h entity) (slot ?rr i)))
                     (zip entities [0..<length entities]) h1"
    and rd: "reads = snd (returningResults this picks entities h1)"
    by auto
  have sl: "slot ?rr i = (if w = [] then None else getOne (queryRunner this) q)"
    using returningResults_conflict_slot
        [where this = this and h = h1 and entities = entities and i = i and picks = picks, OF i noid]
      cc cr by simp
  have rp: "readsOfPosition i reads = (if w = [] then [] else [ReadOne i q])"
    unfolding rd returningResults_readsOfPosition using cc i noid cr by simp
  have le: "generatedMaps res' ! (length (generatedMaps res) + i) = merge (gms1 ! i) (slot ?rr i)"
    unfolding led using i by (simp add: nth_append)
  have ie: "identifiers res' ! (length (identifiers res) + i) = getEntityIdMap ?md (h' (entities ! i))"
    unfolding ids using i by (simp add: nth_append)
  have un: "h' (entities ! i) = h1 (entities ! i)" if "w = []"
    unfolding h'
  proof (rule fold_merge_slots_untouched [where k = 0, simplified])
    fix j
    assume j: "j < length entities" and same: "entities ! j = entities ! i"
    have nj: "getEntityIdMap ?md (h1 (entities ! j)) = None" using noid same by simp
    show "slot ?rr j = None"
      using returningResults_conflict_slot
          [where this = this and h = h1 and entities = entities and i = j and picks = picks, OF j nj]
        cc cr that same by simp
  qed
  have fin: "if w = [] then
                 readsOfPosition i reads = []
                 \<and> slot ?rr i = None
                 \<and> generatedMaps res' ! (length (generatedMaps res) + i) = gms1 ! i
                 \<and> h' (entities ! i) = h1 (entities ! i)
                 \<and> identifiers res' ! (length (identifiers res) + i) = None
               else
                 readsOfPosition i reads = [ReadOne i q]
                 \<and> slot ?rr i = getOne (queryRunner this) q
                 \<and> generatedMaps res' ! (length (generatedMaps res) + i)
                     = merge (gms1 ! i) (getOne (queryRunner this) q)"
    using sl rp le ie un noid by (cases "w = []") simp_all
  from ok fin have "\<exists>res' h' reads.
           insert_entities this picks res entities h = Inr (res', h', reads)
           \<and> (if w = [] then
                 readsOfPosition i reads = []
                 \<and> slot ?rr i = None
                 \<and> generatedMaps res' ! (length (generatedMaps res) + i) = gms1 ! i
                 \<and> h' (entities ! i) = h1 (entities ! i)
                 \<and> identifiers res' ! (length (identifiers res) + i) = None
               else
                 readsOfPosition i reads = [ReadOne i q]
                 \<and> slot ?rr i = getOne (queryRunner this) q
                 \<and> generatedMaps res' ! (length (generatedMaps res) + i)
                     = merge (gms1 ! i) (getOne (queryRunner this) q))"
    by blast
  with k v show ?thesis by blast
qed

theorem insert_recovers_conflict_based_entity_witness:
  "\<not> isReturningSqlSupported
        (driver (queryRunner
           (testUpdator False [] (Some (ConflictArray [''key1'', ''key2'']))
              [[(''id'', Num 7), (''key1'', Str ''x''), (''key2'', Str ''y''), (''value'', Str ''new'')]])))
        ''insert''
   \<and> getConflictColumns
         (testUpdator False [] (Some (ConflictArray [''key1'', ''key2'']))
            [[(''id'', Num 7), (''key1'', Str ''x''), (''key2'', Str ''y''), (''value'', Str ''new'')]])
       \<noteq> []
   \<and> insertGeneratedMaps
         (testUpdator False [] (Some (ConflictArray [''key1'', ''key2'']))
            [[(''id'', Num 7), (''key1'', Str ''x''), (''key2'', Str ''y''), (''value'', Str ''new'')]])
         (length [0 :: nat]) [0] 0
         (raw \<lparr> raw = Undefined, generatedMaps = [], identifiers = [] \<rparr>,
          \<lambda>entity. [(''key1'', Str ''x''), (''key2'', Str ''y''), (''value'', Str ''new'')])
       = Inr (Undefined,
              \<lambda>entity. [(''key1'', Str ''x''), (''key2'', Str ''y''), (''value'', Str ''new'')],
              [[]])
   \<and> (0 :: nat) < length [0 :: nat]
   \<and> getEntityIdMap
         (metadata (expressionMap
            (testUpdator False [] (Some (ConflictArray [''key1'', ''key2'']))
               [[(''id'', Num 7), (''key1'', Str ''x''), (''key2'', Str ''y''), (''value'', Str ''new'')]])))
         ((\<lambda>entity :: nat. [(''key1'', Str ''x''), (''key2'', Str ''y''), (''value'', Str ''new'')])
            ([0] ! 0))
       = None
   \<and> buildWhereCondition
         (getConflictColumns
            (testUpdator False [] (Some (ConflictArray [''key1'', ''key2'']))
               [[(''id'', Num 7), (''key1'', Str ''x''), (''key2'', Str ''y''), (''value'', Str ''new'')]]))
         ((\<lambda>entity :: nat. [(''key1'', Str ''x''), (''key2'', Str ''y''), (''value'', Str ''new'')])
            ([0] ! 0)) []
       = [(''key1'', Str ''x''), (''key2'', Str ''y'')]
   \<and> (\<exists>res' h' reads.
         insert_entities
           (testUpdator False [] (Some (ConflictArray [''key1'', ''key2'']))
              [[(''id'', Num 7), (''key1'', Str ''x''), (''key2'', Str ''y''), (''value'', Str ''new'')]])
           [] \<lparr> raw = Undefined, generatedMaps = [], identifiers = [] \<rparr> [0]
           (\<lambda>entity. [(''key1'', Str ''x''), (''key2'', Str ''y''), (''value'', Str ''new'')])
         = Inr (res', h', reads)
         \<and> readsOfPosition 0 reads
           = [ReadOne 0
                \<lparr> selects = [''Test.id''], addSelects = [], fromAlias = ''Test'',
                  whereArg = WhereObject [(''key1'', Str ''x''), (''key2'', Str ''y'')],
                  withDeleted = False, options = [''create-pojo''] \<rparr>]
         \<and> generatedMaps res' ! 0
           = [(''id'', Num 7), (''key1'', Str ''x''), (''key2'', Str ''y''), (''value'', Str ''new'')])"
proof -
  let ?U = "testUpdator False [] (Some (ConflictArray [''key1'', ''key2'']))
        [[(''id'', Num 7), (''key1'', Str ''x''), (''key2'', Str ''y''), (''value'', Str ''new'')]]"
  let ?R = "\<lparr> raw = Undefined, generatedMaps = [], identifiers = [] \<rparr>"
  let ?H = "\<lambda>entity :: nat. [(''key1'', Str ''x''), (''key2'', Str ''y''), (''value'', Str ''new'')]"
  let ?W = "[(''key1'', Str ''x''), (''key2'', Str ''y'')]"
  let ?Q = "reselect (metadata (expressionMap ?U)) (insertionColumns ?U) (WhereObject ?W) False"
  have 1: "\<not> isReturningSqlSupported (driver (queryRunner ?U)) ''insert''"
    by (simp add: test_defs)
  have 2: "getConflictColumns ?U \<noteq> []"
    by (simp add: test_defs insert_defs)
  have 3: "insertGeneratedMaps ?U (length [0 :: nat]) [0] 0 (raw ?R, ?H) = Inr (Undefined, ?H, [[]])"
    by (simp add: test_defs insert_defs fun_eq_iff)
  have 4: "(0 :: nat) < length [0 :: nat]"
    by simp
  have 5: "getEntityIdMap (metadata (expressionMap ?U)) (?H ([0] ! 0)) = None"
    by (simp add: test_defs)
  have 6: "?W = buildWhereCondition (getConflictColumns ?U) (?H ([0] ! 0)) []"
    by (simp add: test_defs insert_defs)
  have 7: "?Q = reselect (metadata (expressionMap ?U)) (insertionColumns ?U) (WhereObject ?W) False"
    by simp
  have q: "?Q = \<lparr> selects = [''Test.id''], addSelects = [], fromAlias = ''Test'',
                  whereArg = WhereObject ?W,
                  withDeleted = False, options = [''create-pojo''] \<rparr>"
    by (simp add: test_defs insert_defs)
  have g: "merge [] (getOne (queryRunner ?U)
                        \<lparr> selects = [''Test.id''], addSelects = [], fromAlias = ''Test'',
                          whereArg = WhereObject ?W,
                          withDeleted = False, options = [''create-pojo''] \<rparr>)
             = [(''id'', Num 7), (''key1'', Str ''x''), (''key2'', Str ''y''), (''value'', Str ''new'')]"
    by (simp add: test_defs insert_defs)
  from insert_recovers_conflict_based_entity
         [where this = ?U and entities = "[0]" and res = ?R and h = ?H and ?r1.0 = Undefined
            and ?h1.0 = ?H and ?gms1.0 = "[[]]" and i = 0 and w = ?W and q = ?Q and picks = "[]",
          OF 1 2 3 4 5 6 7, THEN conjunct2, THEN conjunct2]
  have "\<exists>res' h' reads.
         insert_entities ?U [] ?R [0] ?H = Inr (res', h', reads)
         \<and> readsOfPosition 0 reads = [ReadOne 0 ?Q]
         \<and> slot (fst (returningResults ?U [] [0] ?H)) 0 = getOne (queryRunner ?U) ?Q
         \<and> generatedMaps res' ! 0 = merge [] (getOne (queryRunner ?U) ?Q)"
    by simp
  then have "\<exists>res' h' reads.
         insert_entities ?U [] ?R [0] ?H = Inr (res', h', reads)
         \<and> readsOfPosition 0 reads = [ReadOne 0 ?Q]
         \<and> generatedMaps res' ! 0 = merge [] (getOne (queryRunner ?U) ?Q)"
    by blast
  then have "\<exists>res' h' reads.
         insert_entities ?U [] ?R [0] ?H = Inr (res', h', reads)
         \<and> readsOfPosition 0 reads
           = [ReadOne 0
                \<lparr> selects = [''Test.id''], addSelects = [], fromAlias = ''Test'',
                  whereArg = WhereObject ?W,
                  withDeleted = False, options = [''create-pojo''] \<rparr>]
         \<and> generatedMaps res' ! 0
           = [(''id'', Num 7), (''key1'', Str ''x''), (''key2'', Str ''y''), (''value'', Str ''new'')]"
    unfolding q g .
  with 1 2 3 4 5 6 show ?thesis by simp
qed

lemma insertGeneratedMaps_returns:
  assumes "optionsType (driver (queryRunner this)) \<noteq> ''oracle''"
  shows "\<exists>r1 h1 gms1. insertGeneratedMaps this n es k st = Inr (r1, h1, gms1)"
proof (induction es arbitrary: k st)
  case Nil
  show ?case by simp
next
  case (Cons e es)
  have "\<exists>r. normalizeInsertRaw this (fst st) = Inr r"
    using assms by (simp add: normalizeInsertRaw_def split: val.split)
  then obtain ra ha g where "insertEntity this n e k st = Inr (ra, ha, g)"
    by (auto simp: insertEntity_def Let_def)
  moreover from Cons.IH [of "Suc k" "(ra, ha)"] obtain r1 h1 gs where
    "insertGeneratedMaps this n es (Suc k) (ra, ha) = Inr (r1, h1, gs)"
    by blast
  ultimately show ?case by simp
qed

text \<open>
  C10. Without RETURNING and with no conflict target in the expression map (no
  \<^verbatim>\<open>onUpdate\<close>, or an \<^verbatim>\<open>onUpdate\<close> without \<^verbatim>\<open>conflict\<close>), the resolver returns no
  column; once the first pass has returned, \<^verbatim>\<open>insert\<close> returns without an error; no read
  is issued for any single position; and for every entity whose identifier
  \<^verbatim>\<open>getEntityIdMap\<close> cannot compute after the first pass, nothing is recorded at its
  position, the entity stays as the first pass left it, and the identifier pushed for it
  is \<^verbatim>\<open>undefined\<close>, not a partial mapping.
\<close>

theorem insert_without_conflict_target:
  assumes nsupp: "\<not> isReturningSqlSupported (driver (queryRunner this)) ''insert''"
    and noconf: "(case onUpdate (expressionMap this) of None \<Rightarrow> None | Some ou \<Rightarrow> conflict ou) = None"
    and map1: "insertGeneratedMaps this (length entities) entities 0 (raw res, h) = Inr (r1, h1, gms1)"
  shows "getConflictColumns this = []
     \<and> (\<exists>res' h' reads.
           insert_entities this picks res entities h = Inr (res', h', reads)
           \<and> (\<forall>i. readsOfPosition i reads = [])
           \<and> (\<forall>i < length entities.
                 getEntityIdMap (metadata (expressionMap this)) (h1 (entities ! i)) = None \<longrightarrow>
                   slot (fst (returningResults this picks entities h1)) i = None
                   \<and> h' (entities ! i) = h1 (entities ! i)
                   \<and> identifiers res' ! (length (identifiers res) + i) = None))"
proof -
  let ?md = "metadata (expressionMap this)"
  let ?rr = "fst (returningResults this picks entities h1)"
  have cc: "getConflictColumns this = []"
    using noconf by (simp add: getConflictColumns_def split: option.splits)
  from insert_entities_fields [OF map1, of picks] nsupp obtain res' h' reads where
    ok: "insert_entities this picks res entities h = Inr (res', h', reads)"
    and ids: "identifiers res'
          = identifiers res @ map (\<lambda>entity. getEntityIdMap ?md (h' entity)) entities"
    and h': "h' = fold (\<lambda>(entity, i) h. h(entity := merge (h entity) (slot ?rr i)))
                     (zip entities [0..<length entities]) h1"
    and rd: "reads = snd (returningResults this picks entities h1)"
    by auto
  have rp: "\<forall>i. readsOfPosition i reads = []"
    unfolding rd returningResults_readsOfPosition using cc by simp
  have sl: "slot ?rr j = None"
    if "j < length entities" and "getEntityIdMap ?md (h1 (entities ! j)) = None" for j
    using returningResults_conflict_slot
        [where this = this and h = h1 and entities = entities and i = j and picks = picks,
         OF that] cc by simp
  have each: "slot ?rr i = None \<and> h' (entities ! i) = h1 (entities ! i)
         \<and> identifiers res' ! (length (identifiers res) + i) = None"
    if i: "i < length entities" and noid: "getEntityIdMap ?md (h1 (entities ! i)) = None" for i
  proof -
    have un: "h' (entities ! i) = h1 (entities ! i)"
      unfolding h'
    proof (rule fold_merge_slots_untouched [where k = 0, simplified])
      fix j
      assume j: "j < length entities" and same: "entities ! j = entities ! i"
      show "slot ?rr j = None"
        using sl [OF j] noid same by simp
    qed
    have "identifiers res' ! (length (identifiers res) + i) = getEntityIdMap ?md (h' (entities ! i))"
      unfolding ids using i by (simp add: nth_append)
    with un noid sl [OF i noid] show ?thesis by simp
  qed
  from ok rp each have "\<exists>res' h' reads.
           insert_entities this picks res entities h = Inr (res', h', reads)
           \<and> (\<forall>i. readsOfPosition i reads = [])
           \<and> (\<forall>i < length entities.
                 getEntityIdMap ?md (h1 (entities ! i)) = None \<longrightarrow>
                   slot ?rr i = None
                   \<and> h' (entities ! i) = h1 (entities ! i)
                   \<and> identifiers res' ! (length (identifiers res) + i) = None)"
    by blast
  with cc show ?thesis by blast
qed

theorem insert_without_conflict_target_witness:
  "\<not> isReturningSqlSupported (driver (queryRunner (testUpdator False [] None []))) ''insert''
   \<and> (case onUpdate (expressionMap (testUpdator False [] None [])) of
         None \<Rightarrow> None | Some ou \<Rightarrow> conflict ou) = None
   \<and> insertGeneratedMaps (testUpdator False [] None []) (length [0 :: nat, 1]) [0, 1] 0
         (raw \<lparr> raw = Undefined, generatedMaps = [], identifiers = [] \<rparr>,
          (\<lambda>entity. [(''value'', Str ''a'')])(0 := [(''id'', Num 1)]))
       = Inr (Undefined, (\<lambda>entity. [(''value'', Str ''a'')])(0 := [(''id'', Num 1)]), [[], []])
   \<and> (1 :: nat) < length [0 :: nat, 1]
   \<and> getEntityIdMap (metadata (expressionMap (testUpdator False [] None [])))
         (((\<lambda>entity :: nat. [(''value'', Str ''a'')])(0 := [(''id'', Num 1)])) ([0, 1] ! 1)) = None
   \<and> getConflictColumns (testUpdator False [] None []) = []
   \<and> (\<exists>res' h' reads.
         insert_entities (testUpdator False [] None []) []
           \<lparr> raw = Undefined, generatedMaps = [], identifiers = [] \<rparr> [0, 1]
           ((\<lambda>entity. [(''value'', Str ''a'')])(0 := [(''id'', Num 1)]))
         = Inr (res', h', reads)
         \<and> readsOfPosition 1 reads = []
         \<and> identifiers res' ! 1 = None)"
proof -
  let ?U = "testUpdator False [] None []"
  let ?R = "\<lparr> raw = Undefined, generatedMaps = [], identifiers = [] \<rparr>"
  let ?H = "(\<lambda>entity :: nat. [(''value'', Str ''a'')])(0 := [(''id'', Num 1)])"
  have 1: "\<not> isReturningSqlSupported (driver (queryRunner ?U)) ''insert''"
    by (simp add: test_defs)
  have 2: "(case onUpdate (expressionMap ?U) of None \<Rightarrow> None | Some ou \<Rightarrow> conflict ou) = None"
    by (simp add: test_defs)
  have 3: "insertGeneratedMaps ?U (length [0 :: nat, 1]) [0, 1] 0 (raw ?R, ?H)
             = Inr (Undefined, ?H, [[], []])"
    by (simp add: test_defs insert_defs fun_eq_iff)
  have 4: "(1 :: nat) < length [0 :: nat, 1]"
    by simp
  have 5: "getEntityIdMap (metadata (expressionMap ?U)) (?H ([0, 1] ! 1)) = None"
    by (simp add: test_defs)
  note t = insert_without_conflict_target
         [where this = ?U and entities = "[0, 1]" and res = ?R and h = ?H and ?r1.0 = Undefined
            and ?h1.0 = ?H and ?gms1.0 = "[[], []]" and picks = "[]", OF 1 2 3]
  from t have 6: "getConflictColumns ?U = []" by (rule conjunct1)
  from t [THEN conjunct2] obtain res' h' reads where
    a: "insert_entities ?U [] ?R [0, 1] ?H = Inr (res', h', reads)"
    and b: "\<forall>i. readsOfPosition i reads = []"
    and c: "\<forall>i < length [0 :: nat, 1].
              getEntityIdMap (metadata (expressionMap ?U)) (?H ([0, 1] ! i)) = None \<longrightarrow>
                slot (fst (returningResults ?U [] [0, 1] ?H)) i = None
                \<and> h' ([0, 1] ! i) = ?H ([0, 1] ! i)
                \<and> identifiers res' ! (length (identifiers ?R) + i) = None"
    by blast
  from c 4 5 have "identifiers res' ! (length (identifiers ?R) + 1) = None"
    by blast
  then have "identifiers res' ! 1 = None"
    by simp
  with a b have "\<exists>res' h' reads.
         insert_entities ?U [] ?R [0, 1] ?H = Inr (res', h', reads)
         \<and> readsOfPosition 1 reads = []
         \<and> identifiers res' ! 1 = None"
    by blast
  with 1 2 3 4 5 6 show ?thesis by blast
qed

text \<open>
  C2, at an input where the batched read returns its rows in another order than the
  entities. The entities have the identifiers 2 and 1, the table has the rows of 1 and 2 in
  that order, \<^verbatim>\<open>value\<close> is the returning column. One batched read is issued, for both
  identifiers. The loop of lines 309 to 320 hands out the rows by the counter
  \<^verbatim>\<open>resultIndex\<close>: the entity of identifier 2 receives the row of identifier 1, and
  leaves the call with identifier 1 and the value of that row; likewise the other entity.
\<close>

theorem insert_batched_rows_follow_result_order:
  "insert_entities
     (testUpdator False [testColumn ''value'' False] None
        [[(''id'', Num 1), (''value'', Str ''a'')], [(''id'', Num 2), (''value'', Str ''b'')]])
     [] \<lparr> raw = Undefined, generatedMaps = [], identifiers = [] \<rparr> [0, 1]
     ((\<lambda>entity. [])(0 := [(''id'', Num 2)], 1 := [(''id'', Num 1)]))
   = Inr (\<lparr> raw = Undefined,
            generatedMaps = [[(''id'', Num 1), (''value'', Str ''a'')],
                             [(''id'', Num 2), (''value'', Str ''b'')]],
            identifiers = [Some [(''id'', Num 1)], Some [(''id'', Num 2)]] \<rparr>,
          (\<lambda>entity. [])(0 := [(''id'', Num 1), (''value'', Str ''a'')],
                          1 := [(''id'', Num 2), (''value'', Str ''b'')]),
          [ReadMany
             \<lparr> selects = [''Test.id''], addSelects = [''Test.value''], fromAlias = ''Test'',
               whereArg = WhereArray [[(''id'', Num 2)], [(''id'', Num 1)]],
               withDeleted = False, options = [''create-pojo''] \<rparr>])"
  by (simp add: test_defs insert_defs fun_eq_iff)

text \<open>
  C1, at an input where the batched read returns its rows in another order than the
  entities. The three entities have the identifiers 1, 2 and 3, the table has the rows of
  1, 3 and 2 in that order. Three identifiers and three generated maps are appended, but
  the loop of lines 309 to 320 hands the rows out by the counter \<^verbatim>\<open>resultIndex\<close>: the
  identifiers come out as 1, 3, 2, and the generated map at the position of the entity of
  identifier 2 is the row of identifier 3. The entry at a position is not the one of the
  entity that was given at that position.
\<close>

theorem insert_identifiers_follow_result_order:
  "insert_entities
     (testUpdator False [testColumn ''value'' False] None
        [[(''id'', Num 1), (''value'', Str ''a'')], [(''id'', Num 3), (''value'', Str ''c'')],
         [(''id'', Num 2), (''value'', Str ''b'')]])
     [] \<lparr> raw = Undefined, generatedMaps = [], identifiers = [] \<rparr> [0, 1, 2]
     ((\<lambda>entity. [])(0 := [(''id'', Num 1)], 1 := [(''id'', Num 2)], 2 := [(''id'', Num 3)]))
   = Inr (\<lparr> raw = Undefined,
            generatedMaps = [[(''id'', Num 1), (''value'', Str ''a'')],
                             [(''id'', Num 3), (''value'', Str ''c'')],
                             [(''id'', Num 2), (''value'', Str ''b'')]],
            identifiers = [Some [(''id'', Num 1)], Some [(''id'', Num 3)], Some [(''id'', Num 2)]] \<rparr>,
          (\<lambda>entity. [])(0 := [(''id'', Num 1), (''value'', Str ''a'')],
                          1 := [(''id'', Num 3), (''value'', Str ''c'')],
                          2 := [(''id'', Num 2), (''value'', Str ''b'')]),
          [ReadMany
             \<lparr> selects = [''Test.id''], addSelects = [''Test.value''], fromAlias = ''Test'',
               whereArg = WhereArray [[(''id'', Num 1)], [(''id'', Num 2)], [(''id'', Num 3)]],
               withDeleted = False, options = [''create-pojo''] \<rparr>])"
  by (simp add: test_defs insert_defs fun_eq_iff)

section \<open>What the reconcilers leave untouched\<close>

lemma map_of_assign:
  "map_of (assign k v d) k' = (if k' = k then Some v else map_of d k')"
  by (induction d) auto

lemma keys_merge:
  "keys (merge d src) = keys d \<union> addressed src"
proof (cases src)
  case None
  then show ?thesis by (simp add: addressed_def)
next
  case (Some s)
  have "keys (merge d (Some s)) = keys d \<union> keys s" for d
  proof (induction s arbitrary: d)
    case Nil
    show ?case by (simp add: keys_def)
  next
    case (Cons p s)
    obtain a b where p: "p = (a, b)" by (cases p)
    show ?case
      unfolding p merge.simps Cons.IH keys_assign by (auto simp: keys_def)
  qed
  with Some show ?thesis by (simp add: addressed_def)
qed

lemma map_of_merge_unaddressed:
  assumes "k \<notin> addressed src"
  shows "map_of (merge d src) k = map_of d k"
proof (cases src)
  case None
  then show ?thesis by simp
next
  case (Some s)
  have "k \<notin> keys s \<Longrightarrow> map_of (merge d (Some s)) k = map_of d k" for d
  proof (induction s arbitrary: d)
    case Nil
    show ?case by simp
  next
    case (Cons p s)
    obtain a b where p: "p = (a, b)" by (cases p)
    from Cons.prems have "k \<noteq> a" and "k \<notin> keys s" by (auto simp: p keys_def)
    then show ?case
      unfolding p merge.simps using Cons.IH [of "assign a b d"] by (simp add: map_of_assign)
  qed
  with Some assms show ?thesis by (simp add: addressed_def)
qed

text \<open>Every merge into an entity, as a list of pairs of a reference and a source.\<close>

lemma mergeInto_unaddressed:
  "k \<notin> addressed (snd t) \<Longrightarrow> map_of (mergeInto t h e) k = map_of (h e) k"
  by (simp add: mergeInto_def map_of_merge_unaddressed)

lemma mergeInto_other: "e \<noteq> fst t \<Longrightarrow> mergeInto t h e = h e"
  by (simp add: mergeInto_def)

lemma fold_merges_other:
  assumes "e \<notin> fst ` set ts"
  shows "fold mergeInto ts h e = h e"
  using assms
proof (induction ts arbitrary: h)
  case Nil
  show ?case by simp
next
  case (Cons t ts)
  have "fold mergeInto (t # ts) h e = fold mergeInto ts (mergeInto t h) e"
    by simp
  also have "\<dots> = mergeInto t h e"
    by (rule Cons.IH) (use Cons.prems in auto)
  also have "\<dots> = h e"
    by (rule mergeInto_other) (use Cons.prems in auto)
  finally show ?case .
qed

lemma fold_option_merges:
  "fold (\<lambda>x h. case f x of None \<Rightarrow> h | Some rc \<Rightarrow> h(g x := merge (h (g x)) (Some rc))) xs h
     = fold mergeInto (map (\<lambda>x. (g x, f x)) xs) h"
proof (induction xs arbitrary: h)
  case Nil
  show ?case by simp
next
  case (Cons x xs)
  have step: "(case f x of None \<Rightarrow> h | Some rc \<Rightarrow> h(g x := merge (h (g x)) (Some rc)))
                = mergeInto (g x, f x) h"
    by (cases "f x") (simp_all add: mergeInto_def)
  show ?case
    unfolding fold_simps list.map step by (rule Cons.IH)
qed

lemma fold_plain_merges:
  "fold (\<lambda>x h. h(g x := merge (h (g x)) (f x))) xs h
     = fold mergeInto (map (\<lambda>x. (g x, f x)) xs) h"
proof (induction xs arbitrary: h)
  case Nil
  show ?case by simp
next
  case (Cons x xs)
  have step: "h(g x := merge (h (g x)) (f x)) = mergeInto (g x, f x) h"
    by (simp add: mergeInto_def)
  show ?case
    unfolding fold_simps list.map step by (rule Cons.IH)
qed

lemma update_entities_loading_store:
  assumes nsupp: "\<not> isReturningSqlSupported (driver (queryRunner this)) ''update''"
    and cols: "extraReturningColumns (expressionMap this) \<noteq> []"
    and ok: "update_entities this picks res entities h = Inr (res', h', reads)"
  shows "h' = fold mergeInto
                (completionOrder picks
                   (List.map_filter
                      (\<lambda>entity. map_option (\<lambda>q. (entity, getOne (queryRunner this) q))
                                   (readFor this h entity))
                      entities)) h"
proof -
  let ?init = "initialUpdateState res h"
  let ?fin = "updateEntities this entities 0 ?init"
  note c = updateEntities_loading [OF nsupp cols, of entities 0 ?init]
  have rej: "rejected ?fin = None"
    using ok by (auto simp: update_entities_def Let_def split: option.splits)
  let ?ts = "completionOrder picks (pending ?fin)"
  have h': "h' = entityStore (fold updateLoaded ?ts ?fin)"
    using ok rej by (simp add: update_entities_def Let_def)
  have "entityStore (fold updateLoaded ?ts ?fin)
          = fold (\<lambda>t h. case snd t of None \<Rightarrow> h
                     | Some row \<Rightarrow> h(fst t := merge (h (fst t)) (Some row)))
              ?ts (entityStore ?fin)"
    using fold_updateLoaded_fields [of ?ts ?fin] by simp
  also have "\<dots> = fold mergeInto (map (\<lambda>t. (fst t, snd t)) ?ts) (entityStore ?fin)"
    by (rule fold_option_merges)
  also have "\<dots> = fold mergeInto ?ts h"
    using c by (simp add: initialUpdateState_def)
  finally show ?thesis
    unfolding h' using c by (simp add: initialUpdateState_def)
qed

lemma fold_merges_unaddressed_at:
  assumes "\<And>t. t \<in> set ts \<Longrightarrow> fst t = e \<Longrightarrow> k \<notin> addressed (snd t)"
  shows "map_of (fold mergeInto ts h e) k = map_of (h e) k"
  using assms
proof (induction ts arbitrary: h)
  case Nil
  show ?case by simp
next
  case (Cons t ts)
  have "map_of (fold mergeInto (t # ts) h e) k = map_of (fold mergeInto ts (mergeInto t h) e) k"
    by simp
  also have "\<dots> = map_of (mergeInto t h e) k"
    by (rule Cons.IH) (simp add: Cons.prems)
  also have "\<dots> = map_of (h e) k"
  proof (cases "fst t = e")
    case True
    show ?thesis
      by (rule mergeInto_unaddressed) (simp add: Cons.prems True)
  next
    case False
    then show ?thesis by (simp add: mergeInto_other)
  qed
  finally show ?case .
qed

lemma update_entities_merges_at:
  assumes ok: "update_entities this picks res entities h = Inr (res', h', reads)"
  shows "\<exists>ts. h' = fold mergeInto ts h
           \<and> (\<forall>t \<in> set ts. \<exists>i < length entities.
                  fst t = entities ! i \<and> snd t = obtained this (raw res') h entities i)"
proof (cases "isReturningSqlSupported (driver (queryRunner this)) ''update''")
  case True
  let ?rc = "returningColumnsAt this (raw res')"
  let ?ts = "map (\<lambda>x. (fst x, ?rc (snd x))) (zip entities [0..<length entities])"
  note r = update_entities_returning [OF True ok]
  have a: "h' = fold mergeInto ?ts h"
    unfolding r(2) case_prod_unfold by (rule fold_option_merges)
  have ob: "obtained this (raw res') h entities = ?rc"
    using True by (simp add: obtained_def fun_eq_iff)
  have c: "\<exists>i < length entities. fst t = entities ! i \<and> snd t = obtained this (raw res') h entities i"
    if "t \<in> set ?ts" for t
  proof -
    from that obtain i where "i < length entities" and "t = (entities ! i, ?rc i)"
      by (auto simp: set_zip)
    then show ?thesis unfolding ob by auto
  qed
  from a c show ?thesis by blast
next
  case nsupp: False
  show ?thesis
  proof (cases "extraReturningColumns (expressionMap this) = []")
    case True
    have "h' = h"
      using ok update_entities_no_columns [OF nsupp True, of picks res entities h] by simp
    then have "h' = fold mergeInto [] h" by simp
    then show ?thesis by (intro exI [of _ "[]"]) simp
  next
    case False
    let ?pend = "List.map_filter
                      (\<lambda>entity. map_option (\<lambda>q. (entity, getOne (queryRunner this) q))
                                   (readFor this h entity))
                      entities"
    let ?ts = "completionOrder picks ?pend"
    have a: "h' = fold mergeInto ?ts h"
      by (rule update_entities_loading_store [OF nsupp False ok])
    have c: "\<exists>i < length entities. fst t = entities ! i \<and> snd t = obtained this (raw res') h entities i"
      if "t \<in> set ?ts" for t
    proof -
      from that have "t \<in> set ?pend" by (simp add: set_completionOrder)
      then obtain entity q where e: "entity \<in> set entities"
        and rf: "readFor this h entity = Some q"
        and t: "t = (entity, getOne (queryRunner this) q)"
        by (auto simp: List.map_filter_def)
      from e obtain i where i: "i < length entities" and ei: "entities ! i = entity"
        by (auto simp: in_set_conv_nth)
      have "obtained this (raw res') h entities i = getOne (queryRunner this) q"
        using nsupp False rf ei by (simp add: obtained_def)
      with i ei t show ?thesis by auto
    qed
    from a c show ?thesis by blast
  qed
qed

lemma insert_entities_merges_at:
  assumes ok: "insert_entities this picks res entities h = Inr (res', h', reads)"
  shows "\<exists>ts. h' = fold mergeInto ts h
           \<and> (\<forall>t \<in> set ts. \<exists>i < length entities.
                  fst t = entities ! i
                  \<and> addressed (snd t)
                      \<subseteq> keys (generatedMaps res' ! (length (generatedMaps res) + i)))"
proof -
  from insert_entities_Inr_map1 [OF ok] obtain r1 h1 gms1 where
    map1: "insertGeneratedMaps this (length entities) entities 0 (raw res, h) = Inr (r1, h1, gms1)"
    by blast
  let ?n = "length entities"
  let ?supp = "isReturningSqlSupported (driver (queryRunner this)) ''insert''"
  let ?rr = "fst (returningResults this picks entities h1)"
  let ?src = "\<lambda>i. if ?supp then None else slot ?rr i"
  let ?ts1 = "map (\<lambda>x. (fst x, Some (snd x))) (zip entities gms1)"
  let ?ts2 = "map (\<lambda>x. (fst x, ?src (snd x))) (zip entities [0..<?n])"
  have len: "length gms1 = ?n"
    and h1: "h1 = fold (\<lambda>(entity, g) h. h(entity := merge (h entity) (Some g))) (zip entities gms1) h"
    using insertGeneratedMaps_fields [OF map1] by simp_all
  from insert_entities_fields [OF map1, of picks] ok have
    led: "generatedMaps res'
            = generatedMaps res @ map (\<lambda>i. merge (gms1 ! i) (?src i)) [0..<?n]"
    and h': "h' = (if ?supp then h1
              else fold (\<lambda>(entity, i) h. h(entity := merge (h entity) (slot ?rr i)))
                     (zip entities [0..<?n]) h1)"
    by auto
  have entry: "generatedMaps res' ! (length (generatedMaps res) + i) = merge (gms1 ! i) (?src i)"
    if "i < ?n" for i
    unfolding led using that by (simp add: nth_append)
  have e1: "h1 = fold mergeInto ?ts1 h"
    unfolding h1 case_prod_unfold by (rule fold_plain_merges)
  have e2: "h' = fold mergeInto ?ts2 h1"
  proof (cases ?supp)
    case True
    have "fold (\<lambda>x h. h) xs h1 = h1" for xs :: "(nat \<times> nat) list"
      by (induction xs) simp_all
    then have "fold mergeInto ?ts2 h1 = h1"
      by (simp add: True fold_plain_merges [symmetric])
    with True h' show ?thesis by simp
  next
    case False
    have "h' = fold (\<lambda>x h. h(fst x := merge (h (fst x)) (slot ?rr (snd x)))) (zip entities [0..<?n]) h1"
      using h' False by (simp add: case_prod_unfold)
    also have "\<dots> = fold mergeInto (map (\<lambda>x. (fst x, slot ?rr (snd x))) (zip entities [0..<?n])) h1"
      by (rule fold_plain_merges)
    finally show ?thesis using False by simp
  qed
  have a: "h' = fold mergeInto (?ts1 @ ?ts2) h"
    unfolding e2 e1 by simp
  have c: "\<exists>i < ?n. fst t = entities ! i
             \<and> addressed (snd t) \<subseteq> keys (generatedMaps res' ! (length (generatedMaps res) + i))"
    if "t \<in> set (?ts1 @ ?ts2)" for t
  proof -
    from that consider (first) i where "i < ?n" "fst t = entities ! i" "snd t = Some (gms1 ! i)"
      | (second) i where "i < ?n" "fst t = entities ! i" "snd t = ?src i"
      using len by (auto simp: set_zip)
    then show ?thesis
    proof cases
      case first
      have "addressed (snd t) \<subseteq> keys (merge (gms1 ! i) (?src i))"
        unfolding keys_merge first(3) by (simp add: addressed_def)
      then have "addressed (snd t)
                   \<subseteq> keys (generatedMaps res' ! (length (generatedMaps res) + i))"
        unfolding entry [OF first(1)] .
      with first(1,2) show ?thesis by blast
    next
      case second
      have "addressed (snd t) \<subseteq> keys (merge (gms1 ! i) (?src i))"
        unfolding keys_merge second(3) by simp
      then have "addressed (snd t)
                   \<subseteq> keys (generatedMaps res' ! (length (generatedMaps res) + i))"
        unfolding entry [OF second(1)] .
      with second(1,2) show ?thesis by blast
    qed
  qed
  from a c show ?thesis by blast
qed

text \<open>
  C9. For both \<^verbatim>\<open>update\<close> and \<^verbatim>\<open>insert\<close>, when the call returns, and for every entity:
  a field that nothing merged into this entity addresses is present or absent and of the
  same value as before the call, whatever is merged into the other entities. For
  \<^verbatim>\<open>update\<close>, what is merged into the entity of a position is what the position obtained
  (the extracted generated map, or the row the supplemental read found); for \<^verbatim>\<open>insert\<close>
  it is held by the generated map of the position in the ledger (the extracted generated
  map with the locally generated values on top, and the row a supplemental read
  recovered). Entities are references into the store: the call changes the objects of
  the entities it was given, in place, and no other object of the store.
\<close>

theorem reconcilers_keep_unaddressed_fields:
  "(update_entities this picks ures entities h = Inr (ures', hu, ureads) \<longrightarrow>
      ((\<forall>i < length entities. entities ! i = e \<longrightarrow>
           k \<notin> addressed (obtained this (raw ures') h entities i)) \<longrightarrow>
         map_of (hu e) k = map_of (h e) k)
      \<and> (e \<notin> set entities \<longrightarrow> hu e = h e))
   \<and> (insert_entities this picks ires entities h = Inr (ires', hi, ireads) \<longrightarrow>
      ((\<forall>i < length entities. entities ! i = e \<longrightarrow>
           k \<notin> keys (generatedMaps ires' ! (length (generatedMaps ires) + i))) \<longrightarrow>
         map_of (hi e) k = map_of (h e) k)
      \<and> (e \<notin> set entities \<longrightarrow> hi e = h e))"
proof (intro conjI impI)
  assume ok: "update_entities this picks ures entities h = Inr (ures', hu, ureads)"
  from update_entities_merges_at [OF ok] obtain ts where
    hu: "hu = fold mergeInto ts h"
    and at: "\<forall>t \<in> set ts. \<exists>i < length entities.
                  fst t = entities ! i \<and> snd t = obtained this (raw ures') h entities i"
    by blast
  {
    assume un: "\<forall>i < length entities. entities ! i = e \<longrightarrow>
           k \<notin> addressed (obtained this (raw ures') h entities i)"
    show "map_of (hu e) k = map_of (h e) k"
      unfolding hu
    proof (rule fold_merges_unaddressed_at)
      fix t
      assume t: "t \<in> set ts" and e: "fst t = e"
      from at t obtain i where "i < length entities" "fst t = entities ! i"
        "snd t = obtained this (raw ures') h entities i"
        by blast
      with un e show "k \<notin> addressed (snd t)" by auto
    qed
  }
  {
    assume ne: "e \<notin> set entities"
    have "fst t \<in> set entities" if "t \<in> set ts" for t
    proof -
      from at that obtain i where "i < length entities" "fst t = entities ! i" by blast
      then show ?thesis by simp
    qed
    with ne have "e \<notin> fst ` set ts" by auto
    then show "hu e = h e" unfolding hu by (rule fold_merges_other)
  }
next
  assume ok: "insert_entities this picks ires entities h = Inr (ires', hi, ireads)"
  from insert_entities_merges_at [OF ok] obtain ts where
    hi: "hi = fold mergeInto ts h"
    and at: "\<forall>t \<in> set ts. \<exists>i < length entities.
                  fst t = entities ! i
                  \<and> addressed (snd t)
                      \<subseteq> keys (generatedMaps ires' ! (length (generatedMaps ires) + i))"
    by blast
  {
    assume un: "\<forall>i < length entities. entities ! i = e \<longrightarrow>
           k \<notin> keys (generatedMaps ires' ! (length (generatedMaps ires) + i))"
    show "map_of (hi e) k = map_of (h e) k"
      unfolding hi
    proof (rule fold_merges_unaddressed_at)
      fix t
      assume t: "t \<in> set ts" and e: "fst t = e"
      from at t obtain i where "i < length entities" "fst t = entities ! i"
        "addressed (snd t) \<subseteq> keys (generatedMaps ires' ! (length (generatedMaps ires) + i))"
        by blast
      with un e show "k \<notin> addressed (snd t)" by auto
    qed
  }
  {
    assume ne: "e \<notin> set entities"
    have "fst t \<in> set entities" if "t \<in> set ts" for t
    proof -
      from at that obtain i where "i < length entities" "fst t = entities ! i" by blast
      then show ?thesis by simp
    qed
    with ne have "e \<notin> fst ` set ts" by auto
    then show "hi e = h e" unfolding hi by (rule fold_merges_other)
  }
qed

theorem reconcilers_keep_unaddressed_fields_witness:
  "update_entities (testUpdator True [] None []) []
       \<lparr> raw = Arr [Obj [(''version'', Num 2)]], generatedMaps = [] \<rparr> [0, 1]
       (\<lambda>entity. [(''id'', Num 1), (''version'', Num 1)])
     = Inr (\<lparr> raw = Arr [Obj [(''version'', Num 2)]], generatedMaps = [[(''version'', Num 2)]] \<rparr>,
            (\<lambda>entity. [(''id'', Num 1), (''version'', Num 1)])
              (0 := [(''id'', Num 1), (''version'', Num 2)]),
            [])
   \<and> obtained (testUpdator True [] None []) (Arr [Obj [(''version'', Num 2)]])
         (\<lambda>entity. [(''id'', Num 1), (''version'', Num 1)]) [0, 1] 1 = None
   \<and> map_of (((\<lambda>entity. [(''id'', Num 1), (''version'', Num 1)])
                (0 := [(''id'', Num 1), (''version'', Num 2)])) (1 :: nat)) ''version''
     = map_of [(''id'', Num 1), (''version'', Num 1)] ''version''
   \<and> insert_entities
       (testUpdator False [] (Some (ConflictArray [''key1'', ''key2'']))
          [[(''id'', Num 7), (''key1'', Str ''x''), (''key2'', Str ''y''), (''value'', Str ''new'')]])
       [] \<lparr> raw = Undefined, generatedMaps = [], identifiers = [] \<rparr> [0, 1]
       ((\<lambda>entity. [(''id'', Num 3), (''value'', Str ''mine'')])
          (0 := [(''key1'', Str ''x''), (''key2'', Str ''y'')]))
     = Inr (\<lparr> raw = Undefined,
              generatedMaps =
                [[(''id'', Num 7), (''key1'', Str ''x''), (''key2'', Str ''y''), (''value'', Str ''new'')],
                 []],
              identifiers = [Some [(''id'', Num 7)], Some [(''id'', Num 3)]] \<rparr>,
            (\<lambda>entity. [(''id'', Num 3), (''value'', Str ''mine'')])
              (0 := [(''key1'', Str ''x''), (''key2'', Str ''y''), (''id'', Num 7),
                     (''value'', Str ''new'')]),
            [ReadOne 0
               \<lparr> selects = [''Test.id''], addSelects = [], fromAlias = ''Test'',
                 whereArg = WhereObject [(''key1'', Str ''x''), (''key2'', Str ''y'')],
                 withDeleted = False, options = [''create-pojo''] \<rparr>])
   \<and> ''value'' \<notin> keys ([] :: ObjectLiteral)
   \<and> map_of (((\<lambda>entity. [(''id'', Num 3), (''value'', Str ''mine'')])
                (0 := [(''key1'', Str ''x''), (''key2'', Str ''y''), (''id'', Num 7),
                       (''value'', Str ''new'')])) (1 :: nat)) ''value''
     = map_of [(''id'', Num 3), (''value'', Str ''mine'')] ''value''"
proof -
  let ?V = "testUpdator True [] None []"
  let ?S = "\<lparr> raw = Arr [Obj [(''version'', Num 2)]], generatedMaps = [] \<rparr>"
  let ?G = "\<lambda>entity :: nat. [(''id'', Num 1), (''version'', Num 1)]"
  let ?S' = "\<lparr> raw = Arr [Obj [(''version'', Num 2)]], generatedMaps = [[(''version'', Num 2)]] \<rparr>"
  let ?G' = "?G (0 := [(''id'', Num 1), (''version'', Num 2)])"
  let ?U = "testUpdator False [] (Some (ConflictArray [''key1'', ''key2'']))
        [[(''id'', Num 7), (''key1'', Str ''x''), (''key2'', Str ''y''), (''value'', Str ''new'')]]"
  let ?R = "\<lparr> raw = Undefined, generatedMaps = [], identifiers = [] \<rparr>"
  let ?H = "(\<lambda>entity :: nat. [(''id'', Num 3), (''value'', Str ''mine'')])
          (0 := [(''key1'', Str ''x''), (''key2'', Str ''y'')])"
  let ?R' = "\<lparr> raw = Undefined,
              generatedMaps =
                [[(''id'', Num 7), (''key1'', Str ''x''), (''key2'', Str ''y''), (''value'', Str ''new'')],
                 []],
              identifiers = [Some [(''id'', Num 7)], Some [(''id'', Num 3)]] \<rparr>"
  let ?H' = "(\<lambda>entity :: nat. [(''id'', Num 3), (''value'', Str ''mine'')])
              (0 := [(''key1'', Str ''x''), (''key2'', Str ''y''), (''id'', Num 7),
                     (''value'', Str ''new'')])"
  let ?reads = "[ReadOne 0
               \<lparr> selects = [''Test.id''], addSelects = [], fromAlias = ''Test'',
                 whereArg = WhereObject [(''key1'', Str ''x''), (''key2'', Str ''y'')],
                 withDeleted = False, options = [''create-pojo''] \<rparr>]"
  have upd: "update_entities ?V [] ?S [0, 1] ?G = Inr (?S', ?G', [])"
    by (simp add: test_defs update_defs)
  have ins: "insert_entities ?U [] ?R [0, 1] ?H = Inr (?R', ?H', ?reads)"
    by (simp add: test_defs insert_defs fun_eq_iff)
  have ob: "obtained ?V (Arr [Obj [(''version'', Num 2)]]) ?G [0, 1] 1 = None"
    by (simp add: obtained_def returningColumnsAt_def rawResult_def test_defs)
  have nk: "''value'' \<notin> keys ([] :: ObjectLiteral)"
    by (simp add: keys_def)
  have u1: "\<forall>i < length [0 :: nat, 1]. [0, 1] ! i = (1 :: nat) \<longrightarrow>
              ''version'' \<notin> addressed (obtained ?V (raw ?S') ?G [0, 1] i)"
  proof (intro allI impI)
    fix i :: nat
    assume "i < length [0 :: nat, 1]" and "[0, 1] ! i = (1 :: nat)"
    then have "i = 1" by (cases i) auto
    then show "''version'' \<notin> addressed (obtained ?V (raw ?S') ?G [0, 1] i)"
      using ob by (simp add: addressed_def)
  qed
  have u2: "\<forall>i < length [0 :: nat, 1]. [0, 1] ! i = (1 :: nat) \<longrightarrow>
              ''value'' \<notin> keys (generatedMaps ?R' ! (length (generatedMaps ?R) + i))"
  proof (intro allI impI)
    fix i :: nat
    assume "i < length [0 :: nat, 1]" and "[0, 1] ! i = (1 :: nat)"
    then have "i = 1" by (cases i) auto
    then show "''value'' \<notin> keys (generatedMaps ?R' ! (length (generatedMaps ?R) + i))"
      using nk by simp
  qed
  note t = reconcilers_keep_unaddressed_fields
      [where this = ?V and picks = "[]" and ures = ?S and entities = "[0, 1]" and h = ?G
         and ures' = ?S' and hu = ?G' and ureads = "[]" and k = "''version''" and e = 1]
  note t' = reconcilers_keep_unaddressed_fields
      [where this = ?U and picks = "[]" and ires = ?R and entities = "[0, 1]" and h = ?H
         and ires' = ?R' and hi = ?H' and ireads = ?reads and k = "''value''" and e = 1]
  from t upd u1 have a: "map_of (?G' 1) ''version'' = map_of (?G 1) ''version''"
    by blast
  from t' ins u2 have b: "map_of (?H' 1) ''value'' = map_of (?H 1) ''value''"
    by blast
  from upd ins ob nk a b show ?thesis by simp
qed

end
